theory Spec2Isabelle
  imports Main "HOL-Library.Word"
begin

unbundle bit_operations_syntax

section \<open>The crash-dump writer and reader of \<open>src/runtime/monitor.c\<close>\<close>

text \<open>
  The development embeds \<open>save_gc_crashdump\<close> and \<open>load_gc_crashdump\<close> as they are
  compiled for x86-64 with \<open>LISP_FEATURE_SB_THREAD\<close>, \<open>LISP_FEATURE_IMMOBILE_SPACE\<close> and
  \<open>LISP_FEATURE_C_STACK_IS_CONTROL_STACK\<close> (the only configuration for which the writer is
  compiled at all).  Memory is a collection of byte blocks, the image is a byte list, C
  integers are words of their width, and every way in which the process can stop
  (\<open>lose\<close>, \<open>_exit\<close>, a failed \<open>gc_assert\<close>, an access outside a block or to memory
  that is not mapped) is a value of type \<open>fatal\<close>.
\<close>

subsection \<open>Bytes, words and memory blocks\<close>

type_synonym byte = "8 word"
type_synonym uword_t = "64 word"
type_synonym c_int = "32 word"

datatype fatal =
    Short_write                 \<comment> \<open>\<open>lose("short write, errno=%d")\<close>\<close>
  | Read_failed                 \<comment> \<open>\<open>lose("read failed, errno=%d")\<close>\<close>
  | Bad_header                  \<comment> \<open>\<open>lose("Can't load crashdump: bad header ...")\<close>\<close>
  | Memory_parameters_differ    \<comment> \<open>\<open>lose("Can't load crashdump: memory parameters differ")\<close>\<close>
  | Didnt_map_dynamic_space     \<comment> \<open>\<open>lose("Didn't map dynamic space where expected ...")\<close>\<close>
  | GC_invariant_lost           \<comment> \<open>a failed \<open>gc_assert\<close>\<close>
  | No_stackptr                 \<comment> \<open>\<open>"No stackptr for crash dump"\<close> followed by \<open>_exit(1)\<close>\<close>
  | Out_of_bounds               \<comment> \<open>an access outside the addressed block (undefined in C)\<close>
  | Memory_fault                \<comment> \<open>an access to an address that is not mapped (\<open>SIGSEGV\<close>)\<close>

definition bindE :: "'e + 'a \<Rightarrow> ('a \<Rightarrow> 'e + 'b) \<Rightarrow> 'e + 'b" where
  "bindE m k = (case m of Inl e \<Rightarrow> Inl e | Inr x \<Rightarrow> k x)"

text \<open>Little-endian layout of an integer in \<open>n\<close> bytes, and its inverse.\<close>

fun le_bytes :: "nat \<Rightarrow> nat \<Rightarrow> byte list" where
  "le_bytes 0 v = []"
| "le_bytes (Suc n) v = of_nat v # le_bytes n (v div 256)"

fun le_value :: "byte list \<Rightarrow> nat" where
  "le_value [] = 0"
| "le_value (x # xs) = unat x + 256 * le_value xs"

definition store64 :: "uword_t \<Rightarrow> byte list" where
  "store64 w = le_bytes 8 (unat w)"

definition load64 :: "byte list \<Rightarrow> uword_t" where
  "load64 bs = of_nat (le_value bs)"

definition store16 :: "16 word \<Rightarrow> byte list" where
  "store16 w = le_bytes 2 (unat w)"

definition load16 :: "byte list \<Rightarrow> 16 word" where
  "load16 bs = of_nat (le_value bs)"

definition store32 :: "c_int \<Rightarrow> byte list" where
  "store32 w = le_bytes 4 (unat w)"

definition load32 :: "byte list \<Rightarrow> c_int" where
  "load32 bs = of_nat (le_value bs)"

text \<open>
  A block of memory is the list of its bytes.  Reading \<open>n\<close> bytes at offset \<open>off\<close> and
  overwriting the bytes at \<open>off\<close> are defined inside the block only.
\<close>

definition peek :: "byte list \<Rightarrow> nat \<Rightarrow> nat \<Rightarrow> byte list option" where
  "peek mem off n = (if off + n \<le> length mem then Some (take n (drop off mem)) else None)"

definition poke :: "byte list \<Rightarrow> nat \<Rightarrow> byte list \<Rightarrow> byte list option" where
  "poke mem off bs =
     (if off + length bs \<le> length mem
      then Some (take off mem @ bs @ drop (off + length bs) mem) else None)"

text \<open>Conversions between C integer types: \<open>int\<close> to \<open>long\<close>, and to \<open>size_t\<close>.\<close>

definition long_of_int :: "c_int \<Rightarrow> uword_t" where
  "long_of_int i = scast i"

definition int_of_long :: "uword_t \<Rightarrow> c_int" where
  "int_of_long w = ucast w"

subsection \<open>Constants of the build\<close>

text \<open>
  The headers that fix these constants are not part of the sources at hand, so they are
  parameters.  \<open>FREE_INTERRUPT_CONTEXT_INDEX\<close> is the byte offset of that thread-local
  slot from the thread structure; \<open>reg_SP\<close> is the byte offset of the stack-pointer
  register inside an \<open>os_context_t\<close> (what \<open>os_context_register_addr(context, reg_SP)\<close>
  and \<open>os_context_sp_addr(context)\<close> address); \<open>is_code\<close> is applied to the raw bytes
  of one page-table entry.
\<close>

record build =
  STATIC_SPACE_START :: uword_t
  GENCGC_PAGE_BYTES :: nat
  GENCGC_CARD_BYTES :: nat
  DEFAULT_DYNAMIC_SPACE_SIZE :: nat
  sizeof_page :: nat                     \<comment> \<open>\<open>sizeof (struct page)\<close>\<close>
  sizeof_os_context_t :: nat             \<comment> \<open>\<open>sizeof (os_context_t)\<close>\<close>
  sizeof_thread :: nat                   \<comment> \<open>\<open>sizeof (struct thread)\<close>\<close>
  FIXEDOBJ_SPACE_SIZE :: nat
  VARYOBJ_SPACE_SIZE :: nat
  IMMOBILE_CARD_BYTES :: nat
  FREE_INTERRUPT_CONTEXT_INDEX :: nat
  N_FIXNUM_TAG_BITS :: nat
  reg_SP :: nat
  is_lisp_pointer :: "uword_t \<Rightarrow> bool"
  is_code :: "byte list \<Rightarrow> bool"

definition N_WORD_BYTES :: nat where
  "N_WORD_BYTES = 8"

definition WORD_SHIFT :: nat where
  "WORD_SHIFT = 3"

subsection \<open>The two preambles\<close>

text \<open>
  The fields of \<open>struct crash_preamble\<close>, and \<open>padding\<close>: the two bytes that the
  compiler leaves between \<open>pin_dynspace_code\<close> and \<open>sizeof_context\<close>.
\<close>

record crash_preamble =
  signature :: uword_t
  static_start :: uword_t
  static_nbytes :: uword_t
  dynspace_start :: uword_t
  dynspace_npages :: uword_t
  card_size :: c_int
  card_table_nbits :: c_int
  fixedobj_start :: uword_t
  fixedobj_size :: uword_t
  fixedobj_free_pointer :: uword_t
  varyobj_start :: uword_t
  varyobj_size :: uword_t
  varyobj_free_pointer :: uword_t
  nthreads :: c_int
  tls_size :: c_int
  lisp_package_vector :: uword_t
  sprof_enabled :: byte
  pin_dynspace_code :: byte
  padding :: "16 word"
  sizeof_context :: c_int

record crash_thread_preamble =
  address :: uword_t
  has_context :: uword_t
  control_stack_nbytes :: uword_t
  binding_stack_nbytes :: uword_t

text \<open>
  The LP64 layout of the two structures: every field at its natural alignment, two bytes of
  padding after \<open>pin_dynspace_code\<close>, 120 and 32 bytes in all.  The structure is
  written and read as a whole, so the padding is part of the image.
\<close>

definition sizeof_crash_preamble :: nat where
  "sizeof_crash_preamble = 120"

definition sizeof_crash_thread_preamble :: nat where
  "sizeof_crash_thread_preamble = 32"

definition CRASH_PREAMBLE_SIGNATURE :: c_int where
  "CRASH_PREAMBLE_SIGNATURE =
     push_bit 16 (of_nat sizeof_crash_preamble) OR of_nat sizeof_crash_thread_preamble"

definition preamble_bytes :: "crash_preamble \<Rightarrow> byte list" where
  "preamble_bytes p =
     store64 (signature p) @ store64 (static_start p) @ store64 (static_nbytes p) @
     store64 (dynspace_start p) @ store64 (dynspace_npages p) @
     store32 (card_size p) @ store32 (card_table_nbits p) @
     store64 (fixedobj_start p) @ store64 (fixedobj_size p) @
     store64 (fixedobj_free_pointer p) @
     store64 (varyobj_start p) @ store64 (varyobj_size p) @
     store64 (varyobj_free_pointer p) @
     store32 (nthreads p) @ store32 (tls_size p) @ store64 (lisp_package_vector p) @
     [sprof_enabled p, pin_dynspace_code p] @ store16 (padding p) @
     store32 (sizeof_context p)"

definition field :: "byte list \<Rightarrow> nat \<Rightarrow> nat \<Rightarrow> byte list" where
  "field bs off n = take n (drop off bs)"

definition preamble_of :: "byte list \<Rightarrow> crash_preamble" where
  "preamble_of bs =
     \<lparr> signature = load64 (field bs 0 8),
       static_start = load64 (field bs 8 8),
       static_nbytes = load64 (field bs 16 8),
       dynspace_start = load64 (field bs 24 8),
       dynspace_npages = load64 (field bs 32 8),
       card_size = load32 (field bs 40 4),
       card_table_nbits = load32 (field bs 44 4),
       fixedobj_start = load64 (field bs 48 8),
       fixedobj_size = load64 (field bs 56 8),
       fixedobj_free_pointer = load64 (field bs 64 8),
       varyobj_start = load64 (field bs 72 8),
       varyobj_size = load64 (field bs 80 8),
       varyobj_free_pointer = load64 (field bs 88 8),
       nthreads = load32 (field bs 96 4),
       tls_size = load32 (field bs 100 4),
       lisp_package_vector = load64 (field bs 104 8),
       sprof_enabled = of_nat (le_value (field bs 112 1)),
       pin_dynspace_code = of_nat (le_value (field bs 113 1)),
       padding = load16 (field bs 114 2),
       sizeof_context = load32 (field bs 116 4) \<rparr>"

definition thread_preamble_bytes :: "crash_thread_preamble \<Rightarrow> byte list" where
  "thread_preamble_bytes t =
     store64 (address t) @ store64 (has_context t) @
     store64 (control_stack_nbytes t) @ store64 (binding_stack_nbytes t)"

definition thread_preamble_of :: "byte list \<Rightarrow> crash_thread_preamble" where
  "thread_preamble_of bs =
     \<lparr> address = load64 (field bs 0 8),
       has_context = load64 (field bs 8 8),
       control_stack_nbytes = load64 (field bs 16 8),
       binding_stack_nbytes = load64 (field bs 24 8) \<rparr>"

subsection \<open>Threads and the globals of the runtime\<close>

text \<open>
  A thread is the address \<open>th\<close> of its structure, the fields of the structure the two
  functions use, and the memory they address: \<open>control_stack\<close> is the block that ends at
  \<open>control_stack_end\<close>, \<open>binding_stack\<close> the block that starts at
  \<open>binding_stack_start\<close>, \<open>tls\<close> the block that starts at \<open>th\<close> (the structure followed
  by the thread-local storage), and \<open>interrupt_context\<close> the \<open>os_context_t\<close> that
  \<open>nth_interrupt_context(0, th)\<close> points at.  The links \<open>prev\<close> and \<open>next\<close> are
  represented by the position of the thread in the list \<open>all_threads\<close>.
\<close>

record thread =
  th :: uword_t
  control_stack_end :: uword_t
  control_stack :: "byte list"
  binding_stack_start :: uword_t
  binding_stack_pointer :: uword_t
  binding_stack :: "byte list"
  tls :: "byte list"
  interrupt_context :: "byte list"

text \<open>
  The globals.  Three of them share their name with a field of the preamble and carry the
  suffix \<open>_g\<close> here; \<open>FREE_TLS_INDEX\<close> is \<open>SymbolValue(FREE_TLS_INDEX,0)\<close>.  The
  last field is not a global: the preamble of the writer is a local variable that is not
  initialised, and \<open>stack_residue\<close> is what the two bytes of its padding hold when the
  writer is entered.
\<close>

record runtime =
  static_space :: "byte list"
  static_space_free_pointer :: uword_t
  DYNAMIC_SPACE_START :: uword_t
  dynamic_space_size :: uword_t
  dynamic_space :: "byte list"
  next_free_page :: uword_t
  page_table_pages :: uword_t
  page_table :: "byte list"
  gc_card_table_nbits :: c_int
  gc_card_table_mask :: uword_t
  gc_card_mark :: "byte list"
  FIXEDOBJ_SPACE_START :: uword_t
  fixedobj_free_pointer_g :: uword_t
  fixedobj_space :: "byte list"
  fixedobj_pages :: "byte list"
  VARYOBJ_SPACE_START :: uword_t
  varyobj_free_pointer_g :: uword_t
  varyobj_space :: "byte list"
  varyobj_page_touched_bits :: "byte list"
  varyobj_pages :: "byte list"
  lisp_package_vector_g :: uword_t
  sb_sprof_enabled :: c_int
  pin_all_dynamic_space_code :: c_int
  FREE_TLS_INDEX :: uword_t
  all_threads :: "thread list"
  stack_residue :: "16 word"

definition read_TLS :: "nat \<Rightarrow> thread \<Rightarrow> uword_t option" where
  "read_TLS index t = map_option load64 (peek (tls t) index N_WORD_BYTES)"

definition write_TLS :: "nat \<Rightarrow> uword_t \<Rightarrow> thread \<Rightarrow> thread option" where
  "write_TLS index v t = map_option (\<lambda>m. t\<lparr>tls := m\<rparr>) (poke (tls t) index (store64 v))"

definition fixnum_value :: "build \<Rightarrow> uword_t \<Rightarrow> uword_t" where
  "fixnum_value b n = signed_drop_bit (N_FIXNUM_TAG_BITS b) n"

definition make_fixnum :: "build \<Rightarrow> uword_t \<Rightarrow> uword_t" where
  "make_fixnum b n = push_bit (N_FIXNUM_TAG_BITS b) n"

text \<open>Division of \<open>int\<close> by \<open>int\<close> truncates towards zero; \<open>ALIGN_UP\<close> is the usual macro.\<close>

definition c_div :: "c_int \<Rightarrow> c_int \<Rightarrow> c_int" where
  "c_div x y = word_of_int (sgn (sint x) * sgn (sint y) * (\<bar>sint x\<bar> div \<bar>sint y\<bar>))"

definition ALIGN_UP :: "c_int \<Rightarrow> c_int \<Rightarrow> c_int" where
  "ALIGN_UP v granularity = (v + (granularity - 1)) AND NOT (granularity - 1)"

subsection \<open>The file being written\<close>

text \<open>
  \<open>open(pathname, O_WRONLY|O_CREAT, 0666)\<close> does not truncate: the file keeps the bytes
  \<open>old\<close> it had, and the writes replace them from offset 0 on.  \<open>written\<close> is what has
  been written so far.  How many bytes a call of \<open>write\<close> transfers is decided by the
  system; \<open>outcomes\<close> lists, call by call, what it will decide (a call beyond the list
  transfers everything).
\<close>

datatype outcome = Complete | Partial nat | Failed

record outfile =
  old :: "byte list"
  written :: "byte list"
  outcomes :: "outcome list"

definition image_of :: "outfile \<Rightarrow> byte list" where
  "image_of f = written f @ drop (length (written f)) (old f)"

text \<open>
  \<open>write(fd, buf, n)\<close>: the result is the number of bytes transferred, or \<open>-1\<close>.  A count
  that is negative as a \<open>ssize_t\<close> is refused, a count of 0 transfers nothing, and a
  buffer that leaves its block (\<open>None\<close>) is refused with \<open>EFAULT\<close>.
\<close>

definition sys_write :: "outfile \<Rightarrow> byte list option \<Rightarrow> uword_t \<Rightarrow> int \<times> outfile" where
  "sys_write f buf n =
     (if sint n < 0 then (- 1, f)
      else if n = 0 then (0, f)
      else case buf of
        None \<Rightarrow> (- 1, f)
      | Some bs \<Rightarrow>
          (case outcomes f of
             [] \<Rightarrow> (sint n, f\<lparr>written := written f @ bs\<rparr>)
           | Complete # os \<Rightarrow> (sint n, f\<lparr>written := written f @ bs, outcomes := os\<rparr>)
           | Partial k # os \<Rightarrow>
               (int (min k (unat n)), f\<lparr>written := written f @ take k bs, outcomes := os\<rparr>)
           | Failed # os \<Rightarrow> (- 1, f\<lparr>outcomes := os\<rparr>)))"

text \<open>\<open>checked_write(fd, buf, nbytes)\<close>, the buffer being \<open>nbytes\<close> bytes at \<open>off\<close> in \<open>mem\<close>.\<close>

definition checked_write :: "outfile \<Rightarrow> byte list \<Rightarrow> nat \<Rightarrow> uword_t \<Rightarrow> fatal + outfile" where
  "checked_write fd mem off nbytes =
     (let (wrote, fd') = sys_write fd (peek mem off (unat nbytes)) nbytes
      in if wrote \<noteq> sint nbytes then Inl Short_write else Inr fd')"

subsection \<open>\<open>save_gc_crashdump\<close>\<close>

text \<open>
  The preamble the writer fills in (lines 114 to 134); no statement assigns its padding.
\<close>

definition save_preamble :: "build \<Rightarrow> runtime \<Rightarrow> crash_preamble" where
  "save_preamble b rt =
     \<lparr> signature = long_of_int CRASH_PREAMBLE_SIGNATURE,
       static_start = STATIC_SPACE_START b,
       static_nbytes = static_space_free_pointer rt - STATIC_SPACE_START b,
       dynspace_start = DYNAMIC_SPACE_START rt,
       dynspace_npages = next_free_page rt,
       card_size = of_nat (GENCGC_CARD_BYTES b),
       card_table_nbits = gc_card_table_nbits rt,
       fixedobj_start = FIXEDOBJ_SPACE_START rt,
       fixedobj_size = of_nat (FIXEDOBJ_SPACE_SIZE b),
       fixedobj_free_pointer = fixedobj_free_pointer_g rt,
       varyobj_start = VARYOBJ_SPACE_START rt,
       varyobj_size = of_nat (VARYOBJ_SPACE_SIZE b),
       varyobj_free_pointer = varyobj_free_pointer_g rt,
       nthreads = of_nat (length (all_threads rt)),
       tls_size = int_of_long (FREE_TLS_INDEX rt),
       lisp_package_vector = lisp_package_vector_g rt,
       sprof_enabled = ucast (sb_sprof_enabled rt),
       pin_dynspace_code = ucast (pin_all_dynamic_space_code rt),
       padding = stack_residue rt,
       sizeof_context = of_nat (sizeof_os_context_t b) \<rparr>"

text \<open>
  The stack pointer of a thread (lines 158 to 178): the \<open>reg_SP\<close> of its interrupt
  context when it has one; otherwise the approximation passed in, which is available for
  the calling thread \<open>self\<close> (\<open>get_sb_vm_thread()\<close>) only.
\<close>

definition thread_ici :: "build \<Rightarrow> thread \<Rightarrow> fatal + c_int" where
  "thread_ici b t =
     (case read_TLS (FREE_INTERRUPT_CONTEXT_INDEX b) t of
        None \<Rightarrow> Inl Out_of_bounds
      | Some v \<Rightarrow> Inr (int_of_long (fixnum_value b v)))"

definition thread_sp :: "build \<Rightarrow> uword_t \<Rightarrow> uword_t \<Rightarrow> c_int \<Rightarrow> thread \<Rightarrow> fatal + uword_t" where
  "thread_sp b self approx_stackptr_at_gc_start ici t =
     (if ici \<noteq> 0 then
        (case peek (interrupt_context t) (reg_SP b) N_WORD_BYTES of
           None \<Rightarrow> Inl Out_of_bounds
         | Some bs \<Rightarrow> Inr (load64 bs))
      else if th t \<noteq> self then Inl No_stackptr
      else Inr approx_stackptr_at_gc_start)"

text \<open>The offset in the block \<open>control_stack\<close> of the address \<open>sp\<close>.\<close>

definition stack_offset :: "thread \<Rightarrow> uword_t \<Rightarrow> nat" where
  "stack_offset t sp =
     (let below_end = unat (control_stack_end t - sp)
      in if below_end \<le> length (control_stack t)
         then length (control_stack t) - below_end
         else length (control_stack t) + 1)"

text \<open>The thread preamble (lines 179 to 192).\<close>

definition save_thread_preamble :: "c_int \<Rightarrow> uword_t \<Rightarrow> thread \<Rightarrow> crash_thread_preamble" where
  "save_thread_preamble ici sp t =
     (let nbytes_control_stack = int_of_long (control_stack_end t - sp);
          nbytes_binding_stack = int_of_long (binding_stack_pointer t - binding_stack_start t)
      in \<lparr> address = th t,
           has_context = (if ici \<noteq> 0 then 1 else 0),
           control_stack_nbytes = long_of_int nbytes_control_stack,
           binding_stack_nbytes = long_of_int nbytes_binding_stack \<rparr>)"

text \<open>
  One round of the loop over the threads (lines 157 to 204).  The register snapshot is
  written with \<open>write\<close>, the rest with \<open>checked_write\<close>.
\<close>

definition save_thread ::
  "build \<Rightarrow> uword_t \<Rightarrow> uword_t \<Rightarrow> crash_preamble \<Rightarrow> thread \<Rightarrow> outfile \<Rightarrow> fatal + outfile" where
  "save_thread b self approx_stackptr_at_gc_start preamble t fd =
     bindE (thread_ici b t) (\<lambda>ici.
     bindE (thread_sp b self approx_stackptr_at_gc_start ici t) (\<lambda>sp.
     let thread_preamble = save_thread_preamble ici sp t in
     bindE (checked_write fd (thread_preamble_bytes thread_preamble) 0
              (of_nat sizeof_crash_thread_preamble)) (\<lambda>fd.
     let fd = (if ici \<noteq> 0
               then snd (sys_write fd
                      (peek (interrupt_context t) 0 (unat (long_of_int (sizeof_context preamble))))
                      (long_of_int (sizeof_context preamble)))
               else fd) in
     bindE (checked_write fd (control_stack t) (stack_offset t sp)
              (control_stack_nbytes thread_preamble)) (\<lambda>fd.
     bindE (checked_write fd (binding_stack t) 0
              (binding_stack_nbytes thread_preamble)) (\<lambda>fd.
     checked_write fd (tls t) 0 (long_of_int (tls_size preamble)))))))"

fun save_threads ::
  "build \<Rightarrow> uword_t \<Rightarrow> uword_t \<Rightarrow> crash_preamble \<Rightarrow> thread list \<Rightarrow> outfile \<Rightarrow> fatal + outfile" where
  "save_threads b self sp0 preamble [] fd = Inr fd"
| "save_threads b self sp0 preamble (t # ts) fd =
     bindE (save_thread b self sp0 preamble t fd) (save_threads b self sp0 preamble ts)"

text \<open>The static space, the dynamic space, its page table and the card marks (lines 136 to 143).\<close>

definition save_heap :: "build \<Rightarrow> runtime \<Rightarrow> crash_preamble \<Rightarrow> outfile \<Rightarrow> fatal + outfile" where
  "save_heap b rt preamble fd =
     (let nbytes_heap = next_free_page rt * of_nat (GENCGC_PAGE_BYTES b) in
      bindE (checked_write fd (preamble_bytes preamble) 0 (of_nat sizeof_crash_preamble)) (\<lambda>fd.
      bindE (checked_write fd (static_space rt) 0 (static_nbytes preamble)) (\<lambda>fd.
      bindE (checked_write fd (dynamic_space rt) 0 nbytes_heap) (\<lambda>fd.
      bindE (checked_write fd (page_table rt) 0 (of_nat (sizeof_page b) * next_free_page rt)) (\<lambda>fd.
      checked_write fd (gc_card_mark rt) 0 (1 + gc_card_table_mask rt))))))"

text \<open>
  The two immobile spaces (lines 145 to 154).  The page table of the fixed-size space is
  written with \<open>total_npages * sizeof sizeof(struct fixedobj_page)\<close>, which is
  \<open>total_npages * sizeof (size_t)\<close>.
\<close>

definition immobile_npages :: "build \<Rightarrow> nat \<Rightarrow> c_int" where
  "immobile_npages b space_size = of_nat (space_size div IMMOBILE_CARD_BYTES b)"

definition save_immobile :: "build \<Rightarrow> runtime \<Rightarrow> outfile \<Rightarrow> fatal + outfile" where
  "save_immobile b rt fd =
     (let usage = int_of_long (fixedobj_free_pointer_g rt - FIXEDOBJ_SPACE_START rt) in
      bindE (checked_write fd (fixedobj_space rt) 0 (long_of_int usage)) (\<lambda>fd.
      let total_npages = immobile_npages b (FIXEDOBJ_SPACE_SIZE b) in
      bindE (checked_write fd (fixedobj_pages rt) 0 (long_of_int total_npages * 8)) (\<lambda>fd.
      let usage = int_of_long (varyobj_free_pointer_g rt - VARYOBJ_SPACE_START rt) in
      bindE (checked_write fd (varyobj_space rt) 0 (long_of_int usage)) (\<lambda>fd.
      let total_npages = immobile_npages b (VARYOBJ_SPACE_SIZE b);
          n_bitmap_elts = c_div (ALIGN_UP total_npages 32) 32 in
      bindE (checked_write fd (varyobj_page_touched_bits rt) 0
               (long_of_int n_bitmap_elts * 4)) (\<lambda>fd.
      checked_write fd (varyobj_pages rt) 0 (long_of_int total_npages * 4))))))"

definition SB_Crash :: "byte list" where
  "SB_Crash = [0x53, 0x42, 0x2E, 0x43, 0x72, 0x61, 0x73, 0x68]"

definition save_gc_crashdump :: "build \<Rightarrow> runtime \<Rightarrow> uword_t \<Rightarrow> uword_t \<Rightarrow> outfile \<Rightarrow> fatal + outfile" where
  "save_gc_crashdump b rt self approx_stackptr_at_gc_start fd =
     (let preamble = save_preamble b rt in
      bindE (save_heap b rt preamble fd) (\<lambda>fd.
      bindE (save_immobile b rt fd) (\<lambda>fd.
      bindE (save_threads b self approx_stackptr_at_gc_start preamble (all_threads rt) fd) (\<lambda>fd.
      checked_write fd SB_Crash 0 8))))"

subsection \<open>The image being read\<close>

text \<open>
  The descriptor of the reader is the list of the bytes not yet consumed.  \<open>read(fd, buf, n)\<close>
  on a regular file transfers the \<open>n\<close> next bytes, or what is left of the file when that is
  less; a count that is negative as a \<open>ssize_t\<close> is refused with \<open>-1\<close>.  \<open>checked_read\<close>
  stores the result in a \<open>size_t\<close> and compares it with \<open>n\<close>.
\<close>

type_synonym 'a reader = "byte list \<Rightarrow> fatal + ('a \<times> byte list)"

definition bindR :: "'a reader \<Rightarrow> ('a \<Rightarrow> 'b reader) \<Rightarrow> 'b reader" where
  "bindR m k fd = (case m fd of Inl e \<Rightarrow> Inl e | Inr (x, fd') \<Rightarrow> k x fd')"

definition returnR :: "'a \<Rightarrow> 'a reader" where
  "returnR x fd = Inr (x, fd)"

definition loseR :: "fatal \<Rightarrow> 'a reader" where
  "loseR e fd = Inl e"

definition sys_read :: "byte list \<Rightarrow> uword_t \<Rightarrow> int \<times> byte list \<times> byte list" where
  "sys_read fd n =
     (if sint n < 0 then (- 1, [], fd)
      else (int (length (take (unat n) fd)), take (unat n) fd, drop (unat n) fd))"

definition checked_read :: "uword_t \<Rightarrow> byte list reader" where
  "checked_read n fd =
     (let (r, buf, fd') = sys_read fd n; result = (word_of_int r :: uword_t)
      in if result \<noteq> n then Inl Read_failed else Inr (buf, fd'))"

text \<open>An access outside a block, and a failure of a computation that does not read.\<close>

definition in_bounds :: "'a option \<Rightarrow> 'a reader" where
  "in_bounds m = (case m of None \<Rightarrow> loseR Out_of_bounds | Some x \<Rightarrow> returnR x)"

definition liftR :: "fatal + 'a \<Rightarrow> 'a reader" where
  "liftR m = (case m of Inl e \<Rightarrow> loseR e | Inr x \<Rightarrow> returnR x)"

text \<open>\<open>checked_read(fd, buf, n)\<close> where \<open>buf\<close> is the address at offset \<open>off\<close> of the block \<open>mem\<close>.\<close>

definition read_into :: "uword_t \<Rightarrow> byte list \<Rightarrow> nat \<Rightarrow> byte list reader" where
  "read_into n mem off =
     bindR (checked_read n) (\<lambda>buf. in_bounds (poke mem off buf))"

definition gc_assert :: "bool \<Rightarrow> unit reader" where
  "gc_assert ex = (if ex then returnR () else loseR GC_invariant_lost)"

subsection \<open>The process that reads the image\<close>

text \<open>
  \<open>load_gc_crashdump\<close> runs in a fresh process, after \<open>os_preinit\<close>,
  \<open>allocate_lisp_dynamic_space\<close> and \<open>gc_init\<close>; \<open>startup\<close> is the state of the globals
  at that point.  The functions it calls that are not part of the sources at hand are
  parameters: the address at which \<open>os_validate\<close> places a mapping; the tables that
  \<open>gc_allocate_ptes\<close> and \<open>gc_init_immobile\<close> allocate; the thread structure that the
  \<open>i\<close>-th call of \<open>alloc_thread_struct\<close> returns; the block that the \<open>i\<close>-th call of
  \<open>malloc\<close> returns; and \<open>search_dynamic_space\<close>.  Lines 969 to 978 follow the word
  \<open>th->lisp_thread\<close> to the thread instance, read its \<open>name\<close> and, when that is a base
  string, its header and its characters; the layout of the instance and the test
  \<open>gc_managed_addr_p\<close> are not part of the sources at hand either, and
  \<open>name_readable rt w\<close> tells whether these accesses stay in mapped memory when
  \<open>th->lisp_thread\<close> is \<open>w\<close> and the heap is the one of \<open>rt\<close>.
\<close>

record process =
  startup :: runtime
  os_validate :: "uword_t \<Rightarrow> nat \<Rightarrow> uword_t"
  new_page_table_pages :: uword_t
  new_page_table :: "byte list"
  new_card_table_mask :: "c_int \<Rightarrow> uword_t"
  new_card_mark :: "c_int \<Rightarrow> byte list"
  new_fixedobj_pages :: "byte list"
  new_varyobj_page_touched_bits :: "byte list"
  new_varyobj_pages :: "byte list"
  alloc_thread_struct :: "nat \<Rightarrow> thread"
  malloc :: "nat \<Rightarrow> byte list"
  search_dynamic_space :: "runtime \<Rightarrow> uword_t \<Rightarrow> uword_t option"
  name_readable :: "runtime \<Rightarrow> uword_t \<Rightarrow> bool"

definition gc_allocate_ptes :: "process \<Rightarrow> runtime \<Rightarrow> runtime" where
  "gc_allocate_ptes p rt =
     rt\<lparr> page_table_pages := new_page_table_pages p,
         page_table := new_page_table p,
         gc_card_table_mask := new_card_table_mask p (gc_card_table_nbits rt),
         gc_card_mark := new_card_mark p (gc_card_table_nbits rt) \<rparr>"

definition gc_init_immobile :: "process \<Rightarrow> runtime \<Rightarrow> runtime" where
  "gc_init_immobile p rt =
     rt\<lparr> fixedobj_pages := new_fixedobj_pages p,
         varyobj_page_touched_bits := new_varyobj_page_touched_bits p,
         varyobj_pages := new_varyobj_pages p \<rparr>"

subsection \<open>\<open>load_gc_crashdump\<close>\<close>

text \<open>
  Lines 876 to 909: the preamble and its two checks, the static space, the dynamic space
  mapped at its recorded address, the page table and the card marks.  What is printed, and
  \<open>recompute_gen_bytes_allocated\<close> (which derives the generation totals from the page
  table), leave the state described here as it is.
\<close>

definition load_heap :: "build \<Rightarrow> process \<Rightarrow> (crash_preamble \<times> runtime) reader" where
  "load_heap b p =
     bindR (checked_read (of_nat sizeof_crash_preamble)) (\<lambda>buf.
     let preamble = preamble_of buf;
         rt = (startup p)\<lparr> lisp_package_vector_g := lisp_package_vector preamble,
                           sb_sprof_enabled := scast (sprof_enabled preamble) \<rparr>
     in
     if signature preamble \<noteq> long_of_int CRASH_PREAMBLE_SIGNATURE then loseR Bad_header
     else if card_size preamble \<noteq> of_nat (GENCGC_CARD_BYTES b) then loseR Memory_parameters_differ
     else
     let rt = gc_allocate_ptes p (rt\<lparr> gc_card_table_nbits := card_table_nbits preamble \<rparr>);
         rt = rt\<lparr> next_free_page := dynspace_npages preamble \<rparr>
     in
     bindR (read_into (static_nbytes preamble) (static_space rt) 0) (\<lambda>m.
     let rt = rt\<lparr> static_space := m,
                   static_space_free_pointer := STATIC_SPACE_START b + static_nbytes preamble,
                   DYNAMIC_SPACE_START := dynspace_start preamble \<rparr>;
         dynspace_nbytes = dynspace_npages preamble * of_nat (GENCGC_PAGE_BYTES b);
         dynspace = os_validate p (dynspace_start preamble) (DEFAULT_DYNAMIC_SPACE_SIZE b)
     in
     if dynspace \<noteq> dynspace_start preamble then loseR Didnt_map_dynamic_space
     else
     bindR (read_into dynspace_nbytes (replicate (DEFAULT_DYNAMIC_SPACE_SIZE b) 0) 0) (\<lambda>m.
     let rt = rt\<lparr> dynamic_space := m \<rparr> in
     bindR (read_into (of_nat (sizeof_page b) * next_free_page rt) (page_table rt) 0) (\<lambda>m.
     let rt = rt\<lparr> page_table := m \<rparr> in
     bindR (read_into (1 + gc_card_table_mask rt) (gc_card_mark rt) 0) (\<lambda>m.
     returnR (preamble, rt\<lparr> gc_card_mark := m \<rparr>))))))"

text \<open>
  Lines 914 to 937: the two immobile spaces.  The result of \<open>os_validate\<close> is not looked at
  here; \<open>calc_immobile_space_bounds\<close> and \<open>write_protect_immobile_space\<close> leave the state
  described here as it is.
\<close>

definition load_immobile :: "build \<Rightarrow> process \<Rightarrow> crash_preamble \<Rightarrow> runtime \<Rightarrow> runtime reader" where
  "load_immobile b p preamble rt =
     bindR (gc_assert (fixedobj_size preamble = of_nat (FIXEDOBJ_SPACE_SIZE b))) (\<lambda>_.
     bindR (gc_assert (varyobj_size preamble = of_nat (VARYOBJ_SPACE_SIZE b))) (\<lambda>_.
     let rt = rt\<lparr> FIXEDOBJ_SPACE_START := fixedobj_start preamble,
                   VARYOBJ_SPACE_START := varyobj_start preamble,
                   fixedobj_free_pointer_g := fixedobj_free_pointer preamble,
                   varyobj_free_pointer_g := varyobj_free_pointer preamble,
                   fixedobj_space := replicate (FIXEDOBJ_SPACE_SIZE b) 0,
                   varyobj_space := replicate (VARYOBJ_SPACE_SIZE b) 0 \<rparr>;
         rt = gc_init_immobile p rt;
         usage = int_of_long (fixedobj_free_pointer_g rt - FIXEDOBJ_SPACE_START rt)
     in
     bindR (read_into (long_of_int usage) (fixedobj_space rt) 0) (\<lambda>m.
     let rt = rt\<lparr> fixedobj_space := m \<rparr>;
         total_npages = immobile_npages b (FIXEDOBJ_SPACE_SIZE b)
     in
     bindR (read_into (long_of_int total_npages * 8) (fixedobj_pages rt) 0) (\<lambda>m.
     let rt = rt\<lparr> fixedobj_pages := m \<rparr>;
         usage = int_of_long (varyobj_free_pointer_g rt - VARYOBJ_SPACE_START rt)
     in
     bindR (read_into (long_of_int usage) (varyobj_space rt) 0) (\<lambda>m.
     let rt = rt\<lparr> varyobj_space := m \<rparr>;
         total_npages = immobile_npages b (VARYOBJ_SPACE_SIZE b);
         n_bitmap_elts = c_div (ALIGN_UP total_npages 32) 32
     in
     bindR (read_into (long_of_int n_bitmap_elts * 4) (varyobj_page_touched_bits rt) 0) (\<lambda>m.
     let rt = rt\<lparr> varyobj_page_touched_bits := m \<rparr> in
     bindR (read_into (long_of_int total_npages * 4) (varyobj_pages rt) 0) (\<lambda>m.
     returnR (rt\<lparr> varyobj_pages := m \<rparr>))))))))"

subsection \<open>The scan of a restored control stack\<close>

text \<open>
  Modelled from the spec: \<open>find_page_index\<close> is an inline function of a header that is not
  part of the sources at hand; it is the \<open>page_index_of(addr)\<close> of the Region and Page Table
  Model, plain address arithmetic, with \<open>-1\<close> for an address that has no page.
\<close>

definition find_page_index :: "build \<Rightarrow> runtime \<Rightarrow> uword_t \<Rightarrow> int" where
  "find_page_index b rt addr =
     (if DYNAMIC_SPACE_START rt \<le> addr then
        (let index = int (unat (addr - DYNAMIC_SPACE_START rt) div GENCGC_PAGE_BYTES b)
         in if index < sint (page_table_pages rt) then index else - 1)
      else - 1)"

text \<open>\<open>page_table[index]\<close>, as the raw bytes of the entry.\<close>

definition page_table_entry :: "build \<Rightarrow> runtime \<Rightarrow> int \<Rightarrow> byte list option" where
  "page_table_entry b rt index =
     (if index < 0 then None
      else peek (page_table rt) (nat index * sizeof_page b) (sizeof_page b))"

text \<open>The condition of lines 987 to 989 on one word of the stack.\<close>

definition could_be_pointer :: "build \<Rightarrow> runtime \<Rightarrow> uword_t \<Rightarrow> fatal + bool" where
  "could_be_pointer b rt word =
     (if DYNAMIC_SPACE_START rt \<le> word \<and> word < DYNAMIC_SPACE_START rt + dynamic_space_size rt
      then
        (if is_lisp_pointer b word then Inr True
         else (case page_table_entry b rt (find_page_index b rt word) of
                 None \<Rightarrow> Inl Out_of_bounds
               | Some pte \<Rightarrow> Inr (is_code b pte)))
      else Inr False)"

text \<open>
  The body of the loop of lines 985 to 1005 for the word at offset \<open>at\<close> of the block
  \<open>stack\<close>: the two counters after it.
\<close>

definition scan_word ::
  "build \<Rightarrow> process \<Rightarrow> runtime \<Rightarrow> byte list \<Rightarrow> nat \<Rightarrow> nat \<times> nat \<Rightarrow> fatal + nat \<times> nat" where
  "scan_word b p rt stack at counters =
     (case peek stack at N_WORD_BYTES of
        None \<Rightarrow> Inl Out_of_bounds
      | Some bs \<Rightarrow>
          bindE (could_be_pointer b rt (load64 bs)) (\<lambda>c.
            if c then
              (case search_dynamic_space p rt (load64 bs) of
                 Some found \<Rightarrow> Inr (fst counters + 1, snd counters)
               | None \<Rightarrow> Inr (fst counters, snd counters + 1))
            else Inr counters))"

text \<open>
  The loop: \<open>n\<close> is the number of rounds that are left, \<open>nwords - wordindex\<close>, and
  \<open>stackptr\<close> is the offset of the stack pointer in the block.
\<close>

fun scan_stack ::
  "build \<Rightarrow> process \<Rightarrow> runtime \<Rightarrow> byte list \<Rightarrow> nat \<Rightarrow> nat \<Rightarrow> nat \<Rightarrow> nat \<times> nat \<Rightarrow> fatal + nat \<times> nat" where
  "scan_stack b p rt stack stackptr 0 wordindex counters = Inr counters"
| "scan_stack b p rt stack stackptr (Suc n) wordindex counters =
     bindE (scan_word b p rt stack (stackptr + wordindex * N_WORD_BYTES) counters)
       (scan_stack b p rt stack stackptr n (Suc wordindex))"

subsection \<open>The threads of the image\<close>

text \<open>
  Lines 962 to 967: \<open>skip\<close> bytes of the dumped thread structure are read into a dummy, and
  the rest of the dumped block is read to \<open>&th->lisp_thread\<close>, the last word of the
  structure.
\<close>

definition load_tls :: "build \<Rightarrow> crash_preamble \<Rightarrow> thread \<Rightarrow> thread reader" where
  "load_tls b preamble t =
     (let skip = (of_nat (sizeof_thread b) - of_nat N_WORD_BYTES :: c_int) in
      bindR (checked_read (long_of_int skip)) (\<lambda>dummy.
      bindR (read_into (long_of_int (tls_size preamble - skip)) (tls t)
               (sizeof_thread b - N_WORD_BYTES)) (\<lambda>m.
      returnR (t\<lparr> tls := m \<rparr>))))"

text \<open>
  One round of the loop of lines 941 to 1009, for the \<open>i\<close>-th thread of the image: first
  what is read (lines 942 to 968), which gives the thread and its preamble; then the name
  of the thread (lines 969 to 978), which is reached through the word \<open>th->lisp_thread\<close>
  that has just been read from the image, the last word of the thread structure; then the
  scan of its control stack (lines 983 to 1008), which gives the two numbers that are
  printed.  The array \<open>contexts\<close> has 10 elements.
\<close>

definition read_thread ::
  "build \<Rightarrow> process \<Rightarrow> crash_preamble \<Rightarrow> nat \<Rightarrow> (thread \<times> crash_thread_preamble) reader" where
  "read_thread b p preamble i =
     (let t = alloc_thread_struct p i in
      bindR (checked_read (of_nat sizeof_crash_thread_preamble)) (\<lambda>buf.
      let thread_preamble = thread_preamble_of buf;
          stackptr = control_stack_end t - control_stack_nbytes thread_preamble
      in
      bindR (in_bounds (if i < 10 then Some (malloc p i) else None)) (\<lambda>context.
      bindR (if has_context thread_preamble \<noteq> 0
             then read_into (long_of_int (sizeof_context preamble)) context 0
             else returnR context) (\<lambda>context.
      bindR (in_bounds (poke context (reg_SP b) (store64 stackptr))) (\<lambda>context.
      let t = t\<lparr> interrupt_context := context \<rparr> in
      bindR (read_into (control_stack_nbytes thread_preamble) (control_stack t)
               (stack_offset t stackptr)) (\<lambda>m.
      let t = t\<lparr> control_stack := m \<rparr> in
      bindR (read_into (binding_stack_nbytes thread_preamble) (binding_stack t) 0) (\<lambda>m.
      let t = t\<lparr> binding_stack := m \<rparr> in
      bindR (load_tls b preamble t) (\<lambda>t.
      bindR (in_bounds (write_TLS (FREE_INTERRUPT_CONTEXT_INDEX b) (make_fixnum b 1) t)) (\<lambda>t.
      returnR (t, thread_preamble))))))))))"

definition scan_thread ::
  "build \<Rightarrow> process \<Rightarrow> runtime \<Rightarrow> thread \<Rightarrow> crash_thread_preamble \<Rightarrow> fatal + nat \<times> nat" where
  "scan_thread b p rt t thread_preamble =
     (let stackptr = control_stack_end t - control_stack_nbytes thread_preamble;
          nwords = int_of_long (drop_bit WORD_SHIFT (control_stack_nbytes thread_preamble))
      in scan_stack b p rt (control_stack t) (stack_offset t stackptr)
           (nat (sint nwords)) 0 (0, 0))"

definition thread_name :: "build \<Rightarrow> process \<Rightarrow> runtime \<Rightarrow> thread \<Rightarrow> fatal + unit" where
  "thread_name b p rt t =
     (case read_TLS (sizeof_thread b - N_WORD_BYTES) t of
        None \<Rightarrow> Inl Out_of_bounds
      | Some lisp_thread \<Rightarrow>
          if name_readable p rt lisp_thread then Inr () else Inl Memory_fault)"

definition load_thread ::
  "build \<Rightarrow> process \<Rightarrow> crash_preamble \<Rightarrow> runtime \<Rightarrow> nat \<Rightarrow> (thread \<times> nat \<times> nat) reader" where
  "load_thread b p preamble rt i =
     bindR (read_thread b p preamble i) (\<lambda>r.
     bindR (liftR (thread_name b p rt (fst r))) (\<lambda>_.
     bindR (liftR (scan_thread b p rt (fst r) (snd r))) (\<lambda>counters.
     returnR (fst r, counters))))"

text \<open>
  The loop itself: \<open>n\<close> rounds are left, \<open>i\<close> is the index of the next one, and each new
  thread is pushed on the front of \<open>threads\<close>.
\<close>

fun load_threads ::
  "build \<Rightarrow> process \<Rightarrow> crash_preamble \<Rightarrow> runtime \<Rightarrow> nat \<Rightarrow> nat \<Rightarrow>
   thread list \<times> (nat \<times> nat) list \<Rightarrow> (thread list \<times> (nat \<times> nat) list) reader" where
  "load_threads b p preamble rt 0 i acc = returnR acc"
| "load_threads b p preamble rt (Suc n) i acc =
     bindR (load_thread b p preamble rt i) (\<lambda>r.
       load_threads b p preamble rt n (Suc i) (fst r # fst acc, snd acc @ [snd r]))"

text \<open>
  Lines 876 to 1009 as a reader; the trailing signature (lines 1010 to 1012); and the whole
  function, which asserts in addition that one more \<open>read\<close> finds nothing (line 1013).
  The result is the state of the globals and, thread by thread, the numbers of valid and
  of dangling pointers that were printed.
\<close>

definition load_body :: "build \<Rightarrow> process \<Rightarrow> (runtime \<times> (nat \<times> nat) list) reader" where
  "load_body b p =
     bindR (load_heap b p) (\<lambda>r.
     bindR (load_immobile b p (fst r) (snd r)) (\<lambda>rt.
     bindR (load_threads b p (fst r) rt (nat (sint (nthreads (fst r)))) 0 ([], [])) (\<lambda>acc.
     returnR (rt\<lparr> all_threads := fst acc \<rparr>, snd acc))))"

definition load_trailer :: "unit reader" where
  "load_trailer = bindR (checked_read 8) (\<lambda>signature. gc_assert (signature = SB_Crash))"

definition load_all :: "build \<Rightarrow> process \<Rightarrow> (runtime \<times> (nat \<times> nat) list) reader" where
  "load_all b p = bindR (load_body b p) (\<lambda>r. bindR load_trailer (\<lambda>_. returnR r))"

definition load_gc_crashdump ::
  "build \<Rightarrow> process \<Rightarrow> byte list \<Rightarrow> fatal + (runtime \<times> (nat \<times> nat) list)" where
  "load_gc_crashdump b p fd =
     (case load_all b p fd of
        Inl e \<Rightarrow> Inl e
      | Inr r \<Rightarrow> if fst (sys_read (snd r) 1) \<noteq> 0 then Inl GC_invariant_lost else Inr (fst r))"

subsection \<open>Well-formed states and the layout of the image\<close>

text \<open>
  A count \<open>n\<close> fits a block when it is not negative as a \<open>long\<close> and does not exceed the
  block; \<open>chunk n mem\<close> is the first \<open>n\<close> bytes of the block.
\<close>

definition fits :: "uword_t \<Rightarrow> byte list \<Rightarrow> bool" where
  "fits n mem \<longleftrightarrow> 0 \<le> sint n \<and> unat n \<le> length mem"

definition chunk :: "uword_t \<Rightarrow> byte list \<Rightarrow> byte list" where
  "chunk n mem = take (unat n) mem"

text \<open>The byte counts that writer and reader compute for the immobile spaces.\<close>

definition fixedobj_usage :: "runtime \<Rightarrow> uword_t" where
  "fixedobj_usage rt =
     long_of_int (int_of_long (fixedobj_free_pointer_g rt - FIXEDOBJ_SPACE_START rt))"

definition varyobj_usage :: "runtime \<Rightarrow> uword_t" where
  "varyobj_usage rt =
     long_of_int (int_of_long (varyobj_free_pointer_g rt - VARYOBJ_SPACE_START rt))"

definition fixedobj_pages_nbytes :: "build \<Rightarrow> uword_t" where
  "fixedobj_pages_nbytes b = long_of_int (immobile_npages b (FIXEDOBJ_SPACE_SIZE b)) * 8"

definition touched_bits_nbytes :: "build \<Rightarrow> uword_t" where
  "touched_bits_nbytes b =
     long_of_int (c_div (ALIGN_UP (immobile_npages b (VARYOBJ_SPACE_SIZE b)) 32) 32) * 4"

definition varyobj_pages_nbytes :: "build \<Rightarrow> uword_t" where
  "varyobj_pages_nbytes b = long_of_int (immobile_npages b (VARYOBJ_SPACE_SIZE b)) * 4"

text \<open>
  The state that is captured is well formed when every block holds the bytes that the
  writer takes from it.
\<close>

definition heap_ok :: "build \<Rightarrow> runtime \<Rightarrow> bool" where
  "heap_ok b rt \<longleftrightarrow>
     fits (static_space_free_pointer rt - STATIC_SPACE_START b) (static_space rt) \<and>
     fits (next_free_page rt * of_nat (GENCGC_PAGE_BYTES b)) (dynamic_space rt) \<and>
     fits (of_nat (sizeof_page b) * next_free_page rt) (page_table rt) \<and>
     fits (1 + gc_card_table_mask rt) (gc_card_mark rt)"

definition immobile_ok :: "build \<Rightarrow> runtime \<Rightarrow> bool" where
  "immobile_ok b rt \<longleftrightarrow>
     fits (fixedobj_usage rt) (fixedobj_space rt) \<and>
     fits (fixedobj_pages_nbytes b) (fixedobj_pages rt) \<and>
     fits (varyobj_usage rt) (varyobj_space rt) \<and>
     fits (touched_bits_nbytes b) (varyobj_page_touched_bits rt) \<and>
     fits (varyobj_pages_nbytes b) (varyobj_pages rt)"

text \<open>
  A thread is well formed for the capture when its stack pointer can be determined, lies
  in its control stack less than 2 GiB below the end, its binding stack pointer lies in its
  binding stack less than 2 GiB above the start, and the blocks of its interrupt context
  and of its thread-local storage hold the bytes that are taken from them.
\<close>

definition thread_ok :: "build \<Rightarrow> uword_t \<Rightarrow> uword_t \<Rightarrow> crash_preamble \<Rightarrow> thread \<Rightarrow> bool" where
  "thread_ok b self sp0 pre t \<longleftrightarrow>
     (case thread_ici b t of
        Inl e \<Rightarrow> False
      | Inr ici \<Rightarrow>
         (case thread_sp b self sp0 ici t of
            Inl e \<Rightarrow> False
          | Inr sp \<Rightarrow>
              (ici \<noteq> 0 \<longrightarrow> fits (long_of_int (sizeof_context pre)) (interrupt_context t)) \<and>
              unat (control_stack_end t - sp) < 2 ^ 31 \<and>
              unat (control_stack_end t - sp) \<le> length (control_stack t) \<and>
              unat (binding_stack_pointer t - binding_stack_start t) < 2 ^ 31 \<and>
              unat (binding_stack_pointer t - binding_stack_start t) \<le> length (binding_stack t) \<and>
              fits (long_of_int (tls_size pre)) (tls t)))"

text \<open>The sections of the image, in the order of the layout.\<close>

definition heap_image :: "build \<Rightarrow> runtime \<Rightarrow> byte list" where
  "heap_image b rt =
     preamble_bytes (save_preamble b rt) @
     chunk (static_space_free_pointer rt - STATIC_SPACE_START b) (static_space rt) @
     chunk (next_free_page rt * of_nat (GENCGC_PAGE_BYTES b)) (dynamic_space rt) @
     chunk (of_nat (sizeof_page b) * next_free_page rt) (page_table rt) @
     chunk (1 + gc_card_table_mask rt) (gc_card_mark rt)"

definition immobile_image :: "build \<Rightarrow> runtime \<Rightarrow> byte list" where
  "immobile_image b rt =
     chunk (fixedobj_usage rt) (fixedobj_space rt) @
     chunk (fixedobj_pages_nbytes b) (fixedobj_pages rt) @
     chunk (varyobj_usage rt) (varyobj_space rt) @
     chunk (touched_bits_nbytes b) (varyobj_page_touched_bits rt) @
     chunk (varyobj_pages_nbytes b) (varyobj_pages rt)"

definition thread_image :: "build \<Rightarrow> uword_t \<Rightarrow> uword_t \<Rightarrow> crash_preamble \<Rightarrow> thread \<Rightarrow> byte list" where
  "thread_image b self sp0 pre t =
     (case thread_ici b t of
        Inl e \<Rightarrow> []
      | Inr ici \<Rightarrow>
         (case thread_sp b self sp0 ici t of
            Inl e \<Rightarrow> []
          | Inr sp \<Rightarrow>
              thread_preamble_bytes (save_thread_preamble ici sp t) @
              (if ici \<noteq> 0 then chunk (long_of_int (sizeof_context pre)) (interrupt_context t)
               else []) @
              take (unat (control_stack_end t - sp)) (drop (stack_offset t sp) (control_stack t)) @
              chunk (binding_stack_pointer t - binding_stack_start t) (binding_stack t) @
              chunk (long_of_int (tls_size pre)) (tls t)))"

definition capture_ok :: "build \<Rightarrow> runtime \<Rightarrow> uword_t \<Rightarrow> uword_t \<Rightarrow> bool" where
  "capture_ok b rt self sp0 \<longleftrightarrow>
     heap_ok b rt \<and> immobile_ok b rt \<and>
     list_all (thread_ok b self sp0 (save_preamble b rt)) (all_threads rt)"

definition crash_image :: "build \<Rightarrow> runtime \<Rightarrow> uword_t \<Rightarrow> uword_t \<Rightarrow> byte list" where
  "crash_image b rt self sp0 =
     heap_image b rt @ immobile_image b rt @
     concat (map (thread_image b self sp0 (save_preamble b rt)) (all_threads rt)) @
     SB_Crash"

text \<open>
  A reader is local when a successful run depends on the bytes it consumed only: it
  succeeds in the same way whatever follows them, and it fails in \<open>checked_read\<close> when
  the input ends before them.
\<close>

definition local_reader :: "'a reader \<Rightarrow> bool" where
  "local_reader r \<longleftrightarrow>
     (\<forall>fd x rest. r fd = Inr (x, rest) \<longrightarrow>
        (\<exists>used. fd = used @ rest \<and> (\<forall>ys. r (used @ ys) = Inr (x, ys)) \<and>
                (\<forall>k<length used. r (take k used) = Inl Read_failed)))"

text \<open>
  What the reader rebuilds from the image of a well-formed heap.  \<open>overlay xs mem\<close> is the
  block \<open>mem\<close> with \<open>xs\<close> read to its start.
\<close>

definition overlay :: "byte list \<Rightarrow> byte list \<Rightarrow> byte list" where
  "overlay xs mem = xs @ drop (length xs) mem"

definition restored_heap :: "build \<Rightarrow> process \<Rightarrow> runtime \<Rightarrow> runtime" where
  "restored_heap b p rt =
     (startup p)\<lparr>
       lisp_package_vector_g := lisp_package_vector_g rt,
       sb_sprof_enabled := scast (ucast (sb_sprof_enabled rt) :: byte),
       gc_card_table_nbits := gc_card_table_nbits rt,
       page_table_pages := new_page_table_pages p,
       gc_card_table_mask := new_card_table_mask p (gc_card_table_nbits rt),
       next_free_page := next_free_page rt,
       static_space :=
         overlay (chunk (static_space_free_pointer rt - STATIC_SPACE_START b) (static_space rt))
           (static_space (startup p)),
       static_space_free_pointer := static_space_free_pointer rt,
       DYNAMIC_SPACE_START := DYNAMIC_SPACE_START rt,
       dynamic_space :=
         overlay (chunk (next_free_page rt * of_nat (GENCGC_PAGE_BYTES b)) (dynamic_space rt))
           (replicate (DEFAULT_DYNAMIC_SPACE_SIZE b) 0),
       page_table :=
         overlay (chunk (of_nat (sizeof_page b) * next_free_page rt) (page_table rt))
           (new_page_table p),
       gc_card_mark :=
         overlay (chunk (1 + gc_card_table_mask rt) (gc_card_mark rt))
           (new_card_mark p (gc_card_table_nbits rt)) \<rparr>"

definition restored_immobile :: "build \<Rightarrow> process \<Rightarrow> runtime \<Rightarrow> runtime \<Rightarrow> runtime" where
  "restored_immobile b p rt r =
     r\<lparr> FIXEDOBJ_SPACE_START := FIXEDOBJ_SPACE_START rt,
        VARYOBJ_SPACE_START := VARYOBJ_SPACE_START rt,
        fixedobj_free_pointer_g := fixedobj_free_pointer_g rt,
        varyobj_free_pointer_g := varyobj_free_pointer_g rt,
        fixedobj_space :=
          overlay (chunk (fixedobj_usage rt) (fixedobj_space rt))
            (replicate (FIXEDOBJ_SPACE_SIZE b) 0),
        varyobj_space :=
          overlay (chunk (varyobj_usage rt) (varyobj_space rt))
            (replicate (VARYOBJ_SPACE_SIZE b) 0),
        fixedobj_pages :=
          overlay (chunk (fixedobj_pages_nbytes b) (fixedobj_pages rt)) (new_fixedobj_pages p),
        varyobj_page_touched_bits :=
          overlay (chunk (touched_bits_nbytes b) (varyobj_page_touched_bits rt))
            (new_varyobj_page_touched_bits p),
        varyobj_pages :=
          overlay (chunk (varyobj_pages_nbytes b) (varyobj_pages rt)) (new_varyobj_pages p) \<rparr>"

text \<open>
  The process that reads suits the heap that was captured when the dynamic space can be
  mapped at its address, the mask that \<open>gc_allocate_ptes\<close> derives from the index width is
  the one of the heap, and the blocks it reads into are large enough.
\<close>

definition heap_restorable :: "build \<Rightarrow> process \<Rightarrow> runtime \<Rightarrow> bool" where
  "heap_restorable b p rt \<longleftrightarrow>
     os_validate p (DYNAMIC_SPACE_START rt) (DEFAULT_DYNAMIC_SPACE_SIZE b) = DYNAMIC_SPACE_START rt \<and>
     new_card_table_mask p (gc_card_table_nbits rt) = gc_card_table_mask rt \<and>
     unat (static_space_free_pointer rt - STATIC_SPACE_START b) \<le> length (static_space (startup p)) \<and>
     unat (next_free_page rt * of_nat (GENCGC_PAGE_BYTES b)) \<le> DEFAULT_DYNAMIC_SPACE_SIZE b \<and>
     unat (of_nat (sizeof_page b) * next_free_page rt) \<le> length (new_page_table p) \<and>
     unat (1 + gc_card_table_mask rt) \<le> length (new_card_mark p (gc_card_table_nbits rt))"

definition immobile_restorable :: "build \<Rightarrow> process \<Rightarrow> runtime \<Rightarrow> bool" where
  "immobile_restorable b p rt \<longleftrightarrow>
     unat (fixedobj_usage rt) \<le> FIXEDOBJ_SPACE_SIZE b \<and>
     unat (varyobj_usage rt) \<le> VARYOBJ_SPACE_SIZE b \<and>
     unat (fixedobj_pages_nbytes b) \<le> length (new_fixedobj_pages p) \<and>
     unat (touched_bits_nbytes b) \<le> length (new_varyobj_page_touched_bits p) \<and>
     unat (varyobj_pages_nbytes b) \<le> length (new_varyobj_pages p)"

text \<open>
  The thread that the \<open>i\<close>-th round of the reader's loop rebuilds from the record of the
  captured thread \<open>t\<close>; \<open>put mem off xs\<close> is the block \<open>mem\<close> with \<open>xs\<close> read to offset
  \<open>off\<close>.
\<close>

definition put :: "byte list \<Rightarrow> nat \<Rightarrow> byte list \<Rightarrow> byte list" where
  "put mem off xs = take off mem @ xs @ drop (off + length xs) mem"

definition restored_thread ::
  "build \<Rightarrow> process \<Rightarrow> uword_t \<Rightarrow> uword_t \<Rightarrow> crash_preamble \<Rightarrow> nat \<Rightarrow> thread \<Rightarrow> thread" where
  "restored_thread b p self sp0 pre i t =
     (case thread_ici b t of
        Inl e \<Rightarrow> alloc_thread_struct p i
      | Inr ici \<Rightarrow>
         (case thread_sp b self sp0 ici t of
            Inl e \<Rightarrow> alloc_thread_struct p i
          | Inr sp \<Rightarrow>
             (let f = alloc_thread_struct p i;
                  stackptr = control_stack_end f - (control_stack_end t - sp);
                  context =
                    (if ici \<noteq> 0
                     then overlay (chunk (long_of_int (sizeof_context pre)) (interrupt_context t))
                            (malloc p i)
                     else malloc p i);
                  skip = sizeof_thread b - N_WORD_BYTES
              in f\<lparr> interrupt_context := put context (reg_SP b) (store64 stackptr),
                    control_stack :=
                      put (control_stack f) (stack_offset f stackptr)
                        (take (unat (control_stack_end t - sp))
                           (drop (stack_offset t sp) (control_stack t))),
                    binding_stack :=
                      overlay (chunk (binding_stack_pointer t - binding_stack_start t)
                                 (binding_stack t))
                        (binding_stack f),
                    tls :=
                      put (put (tls f) skip
                             (drop skip (chunk (long_of_int (tls_size pre)) (tls t))))
                        (FREE_INTERRUPT_CONTEXT_INDEX b) (store64 (make_fixnum b 1)) \<rparr>)))"

text \<open>
  The \<open>i\<close>-th thread structure of the reading process suits the captured thread \<open>t\<close> when
  \<open>contexts[i]\<close> exists, and its blocks are large enough for what is read into them; the
  thread structure of the build has its last word within the dumped block.
\<close>

definition thread_restorable ::
  "build \<Rightarrow> process \<Rightarrow> uword_t \<Rightarrow> uword_t \<Rightarrow> crash_preamble \<Rightarrow> nat \<Rightarrow> thread \<Rightarrow> bool" where
  "thread_restorable b p self sp0 pre i t \<longleftrightarrow>
     (case thread_ici b t of
        Inl e \<Rightarrow> False
      | Inr ici \<Rightarrow>
         (case thread_sp b self sp0 ici t of
            Inl e \<Rightarrow> False
          | Inr sp \<Rightarrow>
              i < 10 \<and>
              (ici \<noteq> 0 \<longrightarrow> unat (long_of_int (sizeof_context pre)) \<le> length (malloc p i)) \<and>
              reg_SP b + N_WORD_BYTES \<le> length (malloc p i) \<and>
              unat (control_stack_end t - sp) \<le> length (control_stack (alloc_thread_struct p i)) \<and>
              unat (binding_stack_pointer t - binding_stack_start t)
                \<le> length (binding_stack (alloc_thread_struct p i)) \<and>
              N_WORD_BYTES \<le> sizeof_thread b \<and> sizeof_thread b < 2 ^ 31 \<and>
              sizeof_thread b - N_WORD_BYTES \<le> unat (long_of_int (tls_size pre)) \<and>
              unat (long_of_int (tls_size pre)) \<le> length (tls (alloc_thread_struct p i)) \<and>
              FREE_INTERRUPT_CONTEXT_INDEX b + N_WORD_BYTES
                \<le> length (tls (alloc_thread_struct p i))))"

text \<open>
  The page table covers the envelope of the dynamic space: every address of the envelope
  has a page, and every page an entry.
\<close>

definition envelope_paged :: "build \<Rightarrow> runtime \<Rightarrow> bool" where
  "envelope_paged b rt \<longleftrightarrow>
     0 < GENCGC_PAGE_BYTES b \<and> 0 \<le> sint (page_table_pages rt) \<and>
     unat (dynamic_space_size rt) \<le> unat (page_table_pages rt) * GENCGC_PAGE_BYTES b \<and>
     unat (page_table_pages rt) * sizeof_page b \<le> length (page_table rt)"

definition report_of :: "fatal + nat \<times> nat \<Rightarrow> nat \<times> nat" where
  "report_of r = (case r of Inl e \<Rightarrow> (0, 0) | Inr counters \<Rightarrow> counters)"

text \<open>
  The loop of the reader over the captured threads, and its precondition, which includes
  that the name of every thread can be read once the thread is rebuilt.
\<close>

fun restored_threads ::
  "build \<Rightarrow> process \<Rightarrow> uword_t \<Rightarrow> uword_t \<Rightarrow> crash_preamble \<Rightarrow> runtime \<Rightarrow> nat \<Rightarrow>
   thread list \<Rightarrow> thread list \<times> (nat \<times> nat) list \<Rightarrow> thread list \<times> (nat \<times> nat) list" where
  "restored_threads b p self sp0 pre rt i [] acc = acc"
| "restored_threads b p self sp0 pre rt i (t # ts) acc =
     restored_threads b p self sp0 pre rt (Suc i) ts
       (restored_thread b p self sp0 pre i t # fst acc,
        snd acc @ [report_of (scan_thread b p rt (restored_thread b p self sp0 pre i t)
                                (thread_preamble_of (take 32 (thread_image b self sp0 pre t))))])"

fun threads_restorable ::
  "build \<Rightarrow> process \<Rightarrow> uword_t \<Rightarrow> uword_t \<Rightarrow> crash_preamble \<Rightarrow> runtime \<Rightarrow> nat \<Rightarrow>
   thread list \<Rightarrow> bool" where
  "threads_restorable b p self sp0 pre rt i [] = True"
| "threads_restorable b p self sp0 pre rt i (t # ts) =
     (thread_restorable b p self sp0 pre i t \<and>
      thread_name b p rt (restored_thread b p self sp0 pre i t) = Inr () \<and>
      threads_restorable b p self sp0 pre rt (Suc i) ts)"

text \<open>
  What \<open>load_gc_crashdump\<close> returns for the image of a well-formed capture, and the
  precondition on the process that reads it.
\<close>

definition restored_regions :: "build \<Rightarrow> process \<Rightarrow> runtime \<Rightarrow> runtime" where
  "restored_regions b p rt = restored_immobile b p rt (restored_heap b p rt)"

definition restored ::
  "build \<Rightarrow> process \<Rightarrow> runtime \<Rightarrow> uword_t \<Rightarrow> uword_t \<Rightarrow> runtime \<times> (nat \<times> nat) list" where
  "restored b p rt self sp0 =
     (let acc = restored_threads b p self sp0 (save_preamble b rt) (restored_regions b p rt) 0
                  (all_threads rt) ([], [])
      in ((restored_regions b p rt)\<lparr> all_threads := fst acc \<rparr>, snd acc))"

definition restorable :: "build \<Rightarrow> process \<Rightarrow> runtime \<Rightarrow> uword_t \<Rightarrow> uword_t \<Rightarrow> bool" where
  "restorable b p rt self sp0 \<longleftrightarrow>
     heap_restorable b p rt \<and> immobile_restorable b p rt \<and>
     threads_restorable b p self sp0 (save_preamble b rt) (restored_regions b p rt) 0
       (all_threads rt) \<and>
     envelope_paged b (restored_regions b p rt)"

text \<open>
  What the scan of lines 983 to 1008 is to report, in the words of the specification:
  \<open>stack_word\<close> is \<open>stackptr[wordindex]\<close>, \<open>scanned_words\<close> are the words of the control
  stack from the stack pointer on, as many as the loop visits, and a word is classified
  when the condition of lines 987 to 989 holds for it.
\<close>

definition stack_word :: "byte list \<Rightarrow> nat \<Rightarrow> nat \<Rightarrow> uword_t" where
  "stack_word stack stackptr wordindex =
     load64 (take N_WORD_BYTES (drop (stackptr + wordindex * N_WORD_BYTES) stack))"

definition scanned_words :: "thread \<Rightarrow> crash_thread_preamble \<Rightarrow> uword_t list" where
  "scanned_words t thread_preamble =
     (let stackptr = control_stack_end t - control_stack_nbytes thread_preamble;
          nwords = int_of_long (drop_bit WORD_SHIFT (control_stack_nbytes thread_preamble))
      in map (stack_word (control_stack t) (stack_offset t stackptr)) [0..<nat (sint nwords)])"

definition classified :: "build \<Rightarrow> runtime \<Rightarrow> uword_t \<Rightarrow> bool" where
  "classified b rt word \<longleftrightarrow> could_be_pointer b rt word = Inr True"

definition valid_pointers :: "build \<Rightarrow> process \<Rightarrow> runtime \<Rightarrow> uword_t list \<Rightarrow> nat" where
  "valid_pointers b p rt ws =
     length (filter (\<lambda>w. classified b rt w \<and> search_dynamic_space p rt w \<noteq> None) ws)"

definition dangling_pointers :: "build \<Rightarrow> process \<Rightarrow> runtime \<Rightarrow> uword_t list \<Rightarrow> nat" where
  "dangling_pointers b p rt ws =
     length (filter (\<lambda>w. classified b rt w \<and> search_dynamic_space p rt w = None) ws)"



subsection \<open>A small build, heap and process\<close>

text \<open>
  Pages of 8 bytes with page-table entries of 2 bytes, immobile spaces of 8 bytes with
  cards of 4 bytes, contexts and thread structures of 16 bytes, a thread-local block of 32
  bytes.  \<open>thread0\<close> is the thread that captures (no interrupt context, 8 bytes of
  control stack in use); \<open>thread1\<close> was stopped in an interrupt context.  Page 0 of the
  dynamic space is a code page.
\<close>

definition build0 :: build where
  "build0 = \<lparr> STATIC_SPACE_START = 0x1000, GENCGC_PAGE_BYTES = 8, GENCGC_CARD_BYTES = 4,
     DEFAULT_DYNAMIC_SPACE_SIZE = 16, sizeof_page = 2, sizeof_os_context_t = 16,
     sizeof_thread = 16, FIXEDOBJ_SPACE_SIZE = 8, VARYOBJ_SPACE_SIZE = 8,
     IMMOBILE_CARD_BYTES = 4, FREE_INTERRUPT_CONTEXT_INDEX = 16, N_FIXNUM_TAG_BITS = 1,
     reg_SP = 8, is_lisp_pointer = (\<lambda>w. w AND 3 = 3), is_code = (\<lambda>pte. pte = [7, 0]) \<rparr>"

definition thread0 :: thread where
  "thread0 = \<lparr> th = 0x6000, control_stack_end = 0x5000,
     control_stack = [8, 7, 6, 5, 4, 3, 2, 1, 1, 0x20, 0, 0, 0, 0, 0, 0],
     binding_stack_start = 0x4000, binding_stack_pointer = 0x4000,
     binding_stack = [0, 0, 0, 0, 0, 0, 0, 0],
     tls = [4, 4, 4, 4, 4, 4, 4, 4, 6, 6, 6, 6, 6, 6, 6, 6,
            0, 0, 0, 0, 0, 0, 0, 0, 7, 7, 7, 7, 7, 7, 7, 7],
     interrupt_context = [] \<rparr>"

definition thread1 :: thread where
  "thread1 = \<lparr> th = 0x7000, control_stack_end = 0x8000,
     control_stack = [1, 2, 3, 4, 5, 6, 7, 8, 0x0F, 0x20, 0, 0, 0, 0, 0, 0],
     binding_stack_start = 0x9000, binding_stack_pointer = 0x9008,
     binding_stack = [9, 9, 9, 9, 9, 9, 9, 9, 0, 0, 0, 0, 0, 0, 0, 0],
     tls = [1, 1, 1, 1, 1, 1, 1, 1, 2, 2, 2, 2, 2, 2, 2, 2,
            2, 0, 0, 0, 0, 0, 0, 0, 5, 5, 5, 5, 5, 5, 5, 5],
     interrupt_context = [3, 3, 3, 3, 3, 3, 3, 3, 0xF8, 0x7F, 0, 0, 0, 0, 0, 0] \<rparr>"

definition heap0 :: runtime where
  "heap0 = \<lparr> static_space = [10, 11, 12, 13, 0, 0, 0, 0], static_space_free_pointer = 0x1004,
     DYNAMIC_SPACE_START = 0x2000, dynamic_space_size = 16,
     dynamic_space = [20, 21, 22, 23, 24, 25, 26, 27, 0, 0, 0, 0, 0, 0, 0, 0],
     next_free_page = 1, page_table_pages = 2, page_table = [7, 0, 0, 9, 0, 0],
     gc_card_table_nbits = 1, gc_card_table_mask = 1, gc_card_mark = [1, 0],
     FIXEDOBJ_SPACE_START = 0x3000, fixedobj_free_pointer_g = 0x3004,
     fixedobj_space = [30, 31, 32, 33, 0, 0, 0, 0],
     fixedobj_pages = [1, 2, 3, 4, 5, 6, 7, 8, 9, 10, 11, 12, 13, 14, 15, 16],
     VARYOBJ_SPACE_START = 0x3800, varyobj_free_pointer_g = 0x3804,
     varyobj_space = [40, 41, 42, 43, 0, 0, 0, 0],
     varyobj_page_touched_bits = [3, 0, 0, 0], varyobj_pages = [1, 0, 0, 0, 2, 0, 0, 0],
     lisp_package_vector_g = 0x2003, sb_sprof_enabled = 0, pin_all_dynamic_space_code = 1,
     FREE_TLS_INDEX = 32, all_threads = [thread0, thread1], stack_residue = 0xA55A \<rparr>"

definition file0 :: outfile where
  "file0 = \<lparr> old = [], written = [], outcomes = [] \<rparr>"

text \<open>
  The same heap with both pages of the dynamic space in use; the same heap with a second
  thread that is not the capturing one and has no interrupt context; and a file on which
  the \<open>write\<close> of the register snapshot of \<open>thread1\<close> transfers 5 bytes only (it is
  the fifteenth call that asks for at least one byte: the empty binding stack of
  \<open>thread0\<close> is written with a count of 0).
\<close>

definition heap_wide :: runtime where
  "heap_wide = heap0\<lparr> next_free_page := 2 \<rparr>"

definition heap_unstopped :: runtime where
  "heap_unstopped = heap0\<lparr> all_threads := [thread0, thread0\<lparr> th := 0x7000 \<rparr>] \<rparr>"

definition file_short :: outfile where
  "file_short = \<lparr> old = [], written = [],
     outcomes = [Complete, Complete, Complete, Complete, Complete, Complete, Complete,
                 Complete, Complete, Complete, Complete, Complete, Complete, Complete,
                 Partial 5] \<rparr>"

text \<open>
  A process that reads: empty globals at startup, mappings placed where they are asked
  for, tables of the sizes of this build, thread structures with stacks of 16 bytes, and a
  \<open>search_dynamic_space\<close> that finds an object for the addresses of the first page only;
  the name of a thread can be read unless \<open>th->lisp_thread\<close> is 0.
  The width of the card-table index set up at startup, 14, is not the one of \<open>heap0\<close>.
\<close>

definition fresh_thread :: "nat \<Rightarrow> thread" where
  "fresh_thread i =
     \<lparr> th = 0x17000 + of_nat i * 0x1000, control_stack_end = 0x18000 + of_nat i * 0x1000,
       control_stack = replicate 16 0, binding_stack_start = 0x30000,
       binding_stack_pointer = 0x30000, binding_stack = replicate 16 0,
       tls = replicate 32 0xEE, interrupt_context = [] \<rparr>"

definition process0 :: process where
  "process0 =
     \<lparr> startup = \<lparr> static_space = replicate 8 0, static_space_free_pointer = 0x1000,
         DYNAMIC_SPACE_START = 0, dynamic_space_size = 16, dynamic_space = [],
         next_free_page = 0, page_table_pages = 0, page_table = [],
         gc_card_table_nbits = 14, gc_card_table_mask = 0, gc_card_mark = [],
         FIXEDOBJ_SPACE_START = 0, fixedobj_free_pointer_g = 0, fixedobj_space = [],
         fixedobj_pages = [], VARYOBJ_SPACE_START = 0, varyobj_free_pointer_g = 0,
         varyobj_space = [], varyobj_page_touched_bits = [], varyobj_pages = [],
         lisp_package_vector_g = 0, sb_sprof_enabled = 0, pin_all_dynamic_space_code = 0,
         FREE_TLS_INDEX = 32, all_threads = [], stack_residue = 0 \<rparr>,
       os_validate = (\<lambda>addr size. addr),
       new_page_table_pages = 2, new_page_table = replicate 6 0,
       new_card_table_mask = (\<lambda>nbits. push_bit (unat nbits) 1 - 1),
       new_card_mark = (\<lambda>nbits. replicate (2 ^ unat nbits) 0),
       new_fixedobj_pages = replicate 16 0,
       new_varyobj_page_touched_bits = replicate 4 0,
       new_varyobj_pages = replicate 8 0,
       alloc_thread_struct = fresh_thread,
       malloc = (\<lambda>i. replicate 16 0),
       search_dynamic_space = (\<lambda>rt w. if w < 0x2008 then Some 0x2000 else None),
       name_readable = (\<lambda>rt w. w \<noteq> 0) \<rparr>"

definition image0 :: "byte list" where
  "image0 = crash_image build0 heap0 0x6000 0x4FF8"

section \<open>Properties\<close>

subsection \<open>Encoding of integers and conversions\<close>

lemma length_le_bytes [simp]: "length (le_bytes n v) = n"
  by (induction n arbitrary: v) auto

lemma le_value_le_bytes: "le_value (le_bytes n v) = v mod 256 ^ n"
proof (induction n arbitrary: v)
  case 0
  show ?case by simp
next
  case (Suc n)
  have "unat (of_nat v :: byte) = v mod 256"
    by (simp add: unat_of_nat)
  then show ?case
    using Suc [of "v div 256"]
    by (simp add: mod_mult2_eq)
qed

lemma load64_store64 [simp]: "load64 (store64 w) = w"
proof -
  have "unat w < 2 ^ LENGTH(64)" by (rule unsigned_less)
  then have "unat w mod 256 ^ 8 = unat w" by simp
  then show ?thesis by (simp add: load64_def store64_def le_value_le_bytes)
qed

lemma load32_store32 [simp]: "load32 (store32 w) = w"
proof -
  have "unat w < 2 ^ LENGTH(32)" by (rule unsigned_less)
  then have "unat w mod 256 ^ 4 = unat w" by simp
  then show ?thesis by (simp add: load32_def store32_def le_value_le_bytes)
qed

lemma load16_store16 [simp]: "load16 (store16 w) = w"
proof -
  have "unat w < 2 ^ LENGTH(16)" by (rule unsigned_less)
  then have "unat w mod 256 ^ 2 = unat w" by simp
  then show ?thesis by (simp add: load16_def store16_def le_value_le_bytes)
qed

lemma length_store16 [simp]: "length (store16 w) = 2"
  by (simp add: store16_def)

lemma length_store64 [simp]: "length (store64 w) = 8"
  by (simp add: store64_def)

lemma length_store32 [simp]: "length (store32 w) = 4"
  by (simp add: store32_def)

lemma byte_roundtrip: "of_nat (le_value [x]) = (x :: byte)"
  by simp

lemma length_preamble_bytes [simp]: "length (preamble_bytes p) = 120"
  by (simp add: preamble_bytes_def)

lemma length_thread_preamble_bytes [simp]: "length (thread_preamble_bytes p) = 32"
  by (simp add: thread_preamble_bytes_def)

lemma thread_preamble_of_bytes [simp]: "thread_preamble_of (thread_preamble_bytes t) = t"
  by (simp add: thread_preamble_of_def thread_preamble_bytes_def field_def)

lemma preamble_of_bytes [simp]: "preamble_of (preamble_bytes p) = p"
  by (simp add: preamble_of_def preamble_bytes_def field_def)


subsection \<open>Writing\<close>

lemma bindE_Inr [simp]: "bindE (Inr x) k = k x"
  by (simp add: bindE_def)

lemma bindE_Inl [simp]: "bindE (Inl e) k = Inl e"
  by (simp add: bindE_def)

lemma bindE_eq_Inr: "bindE m k = Inr y \<longleftrightarrow> (\<exists>x. m = Inr x \<and> k x = Inr y)"
  by (cases m) auto

lemma checked_write_complete:
  assumes "outcomes fd = []" and "0 \<le> sint n" and "off + unat n \<le> length mem"
  shows "checked_write fd mem off n = Inr (fd\<lparr>written := written fd @ take (unat n) (drop off mem)\<rparr>)"
proof (cases "n = 0")
  case True
  then show ?thesis by (simp add: checked_write_def sys_write_def)
next
  case False
  with assms show ?thesis
    by (simp add: checked_write_def sys_write_def peek_def)
qed

lemma checked_read_append:
  assumes "length xs = unat n" and "0 \<le> sint n"
  shows "checked_read n (xs @ rest) = Inr (xs, rest)"
  using assms by (simp add: checked_read_def sys_read_def)

lemma sint_nonneg_uint:
  fixes w :: "'a::len word"
  assumes "0 \<le> sint w"
  shows "uint w = sint w"
proof -
  have "sint w < 2 ^ (LENGTH('a) - Suc 0)" by (rule sint_less)
  also have "\<dots> \<le> (2 :: int) ^ LENGTH('a)" by (rule power_increasing) simp_all
  finally have lt: "sint w < 2 ^ LENGTH('a)" .
  have "uint w = uint (word_of_int (sint w) :: 'a word)" by simp
  also have "\<dots> = take_bit LENGTH('a) (sint w)" by (simp only: uint_word_of_int_eq)
  also have "\<dots> = sint w" using assms lt by (rule take_bit_int_eq_self)
  finally show ?thesis .
qed

lemma sint_nonneg_unat: "0 \<le> sint (w :: 'a::len word) \<Longrightarrow> int (unat w) = sint w"
  using sint_nonneg_uint [of w] by simp

lemma sint_long_of_int [simp]: "sint (long_of_int i) = sint i"
proof -
  have "- (2 ^ 63) \<le> - (2 ^ 31 :: int)" by simp
  moreover have "- (2 ^ 31) \<le> sint i" using sint_greater_eq [of i] by simp
  moreover have "sint i < 2 ^ 31" using sint_less [of i] by simp
  ultimately have "signed_take_bit 63 (sint i) = sint i"
    by (intro signed_take_bit_int_eq_self) simp_all
  then show ?thesis by (simp add: long_of_int_def signed_scast_eq)
qed

lemma sint_of_nat_int: "n < 2 ^ 31 \<Longrightarrow> sint (of_nat n :: c_int) = int n"
proof -
  assume "n < 2 ^ 31"
  then have "int n < 2 ^ 31" by (metis of_nat_less_iff of_nat_numeral of_nat_power)
  then have "signed_take_bit 31 (int n) = int n"
    by (intro signed_take_bit_int_eq_self) simp_all
  then show ?thesis by (simp add: signed_of_nat)
qed

lemma sint_of_nat_long: "n < 2 ^ 63 \<Longrightarrow> sint (of_nat n :: uword_t) = int n"
proof -
  assume "n < 2 ^ 63"
  then have "int n < 2 ^ 63" by (metis of_nat_less_iff of_nat_numeral of_nat_power)
  then have "signed_take_bit 63 (int n) = int n"
    by (intro signed_take_bit_int_eq_self) simp_all
  then show ?thesis by (simp add: signed_of_nat)
qed

lemma long_of_int_of_long: "unat (w :: uword_t) < 2 ^ 31 \<Longrightarrow> long_of_int (int_of_long w) = w"
proof -
  assume "unat w < 2 ^ 31"
  then have "int (unat w) < 2 ^ 31" by (metis of_nat_less_iff of_nat_numeral of_nat_power)
  then have "uint w < 2 ^ 31" by simp
  moreover have "- (2 ^ 31) \<le> uint w" by (rule order_trans [of _ 0]) simp_all
  ultimately have "signed_take_bit 31 (uint w) = uint w"
    by (intro signed_take_bit_int_eq_self) simp_all
  then have "sint (ucast w :: c_int) = uint w" by (simp add: signed_ucast_eq)
  then show ?thesis by (simp add: long_of_int_def int_of_long_def scast_eq)
qed

lemma unat_of_nat_long: "n < 2 ^ 64 \<Longrightarrow> unat (of_nat n :: uword_t) = n"
  by (simp add: unat_of_nat)

lemma fits_sint: "fits n mem \<Longrightarrow> 0 \<le> sint n"
  by (simp add: fits_def)

lemma checked_write_fits:
  assumes "outcomes fd = []" and "fits n mem"
  shows "checked_write fd mem 0 n = Inr (fd\<lparr>written := written fd @ chunk n mem\<rparr>)"
  using assms checked_write_complete [of fd n 0 mem] by (simp add: fits_def chunk_def)

lemma save_heap_image:
  assumes "heap_ok b rt" and "outcomes fd = []"
  shows "save_heap b rt (save_preamble b rt) fd =
           Inr (fd\<lparr>written := written fd @ heap_image b rt\<rparr>)"
proof -
  have pre: "fits (of_nat sizeof_crash_preamble) (preamble_bytes (save_preamble b rt))"
    by (simp add: fits_def sizeof_crash_preamble_def)
  have pre_chunk: "chunk (of_nat sizeof_crash_preamble) (preamble_bytes (save_preamble b rt))
                     = preamble_bytes (save_preamble b rt)"
    by (simp add: chunk_def sizeof_crash_preamble_def)
  have st: "static_nbytes (save_preamble b rt) = static_space_free_pointer rt - STATIC_SPACE_START b"
    by (simp add: save_preamble_def)
  show ?thesis
    using assms pre
    by (simp add: save_heap_def heap_ok_def heap_image_def checked_write_fits pre_chunk st
          del: of_nat_mult of_nat_numeral)
qed

lemma save_immobile_image:
  assumes "immobile_ok b rt" and "outcomes fd = []"
  shows "save_immobile b rt fd = Inr (fd\<lparr>written := written fd @ immobile_image b rt\<rparr>)"
  using assms
  by (simp add: save_immobile_def immobile_ok_def immobile_image_def checked_write_fits
        fixedobj_usage_def varyobj_usage_def fixedobj_pages_nbytes_def touched_bits_nbytes_def
        varyobj_pages_nbytes_def Let_def)

lemma small_sint:
  assumes "unat (w :: uword_t) < 2 ^ 31"
  shows "sint w = int (unat w)"
proof -
  have "unat w < 2 ^ 63" using assms by (rule less_le_trans) simp
  then have "sint (of_nat (unat w) :: uword_t) = int (unat w)" by (rule sint_of_nat_long)
  then show ?thesis by simp
qed


lemma save_thread_preamble_small:
  assumes "unat (control_stack_end t - sp) < 2 ^ 31"
    and "unat (binding_stack_pointer t - binding_stack_start t) < 2 ^ 31"
  shows "control_stack_nbytes (save_thread_preamble ici sp t) = control_stack_end t - sp"
    and "binding_stack_nbytes (save_thread_preamble ici sp t) =
           binding_stack_pointer t - binding_stack_start t"
  using assms by (simp_all add: save_thread_preamble_def Let_def long_of_int_of_long)



subsection \<open>The byte counts of the immobile tables\<close>

lemma long_of_int_of_nat: "n < 2 ^ 31 \<Longrightarrow> long_of_int (of_nat n) = of_nat n"
  by (simp add: long_of_int_def scast_eq sint_of_nat_int)

lemma npages_count:
  assumes "n < 2 ^ 27" and "k \<le> 8"
  shows "long_of_int (of_nat n) * of_nat k = (of_nat (k * n) :: uword_t)"
    and "unat (of_nat (k * n) :: uword_t) = k * n"
    and "0 \<le> sint (of_nat (k * n) :: uword_t)"
proof -
  from assms(1) have "n < 2 ^ 31" by (rule less_le_trans) simp
  then show "long_of_int (of_nat n) * of_nat k = (of_nat (k * n) :: uword_t)"
    by (simp add: long_of_int_of_nat mult.commute)
  have "k * n \<le> 8 * n" using assms(2) by simp
  also have "\<dots> < 2 ^ 63" using assms(1) by simp
  finally have lt: "k * n < 2 ^ 63" .
  then have "k * n < 2 ^ 64" by (rule less_le_trans) simp
  then show "unat (of_nat (k * n) :: uword_t) = k * n" by (rule unat_of_nat_long)
  from sint_of_nat_long [OF lt] show "0 \<le> sint (of_nat (k * n) :: uword_t)" by simp
qed

lemma and_not_mask_eq: "(a :: 'a::len word) AND NOT (mask n) = push_bit n (drop_bit n a)"
  by (rule bit_eqI) (auto simp add: bit_simps)

lemma and_not_31: "(a :: c_int) AND NOT 31 = push_bit 5 (drop_bit 5 a)"
proof -
  have "(31 :: c_int) = mask 5" by (simp add: mask_eq_exp_minus_1)
  then show ?thesis by (simp only: and_not_mask_eq)
qed

lemma ALIGN_UP_32:
  assumes "n < 2 ^ 27"
  shows "ALIGN_UP (of_nat n) 32 = of_nat ((n + 31) div 32 * 32)"
proof -
  let ?a = "of_nat (n + 31) :: c_int"
  from assms have "n + 31 < 2 ^ 32" by simp
  then have "(n + 31) mod 2 ^ LENGTH(32) = n + 31" by simp
  moreover have "unat ?a = (n + 31) mod 2 ^ LENGTH(32)" by (rule unat_of_nat)
  ultimately have ua: "unat ?a = n + 31" by (simp only:)
  have "unat (drop_bit 5 ?a) = (n + 31) div 32"
    by (simp only: unat_drop_bit_eq ua) (simp add: drop_bit_eq_div)
  moreover have "unat (of_nat ((n + 31) div 32) :: c_int) = (n + 31) div 32"
  proof -
    have "(n + 31) div 32 < 2 ^ LENGTH(32)" using assms by simp
    then have "(n + 31) div 32 mod 2 ^ LENGTH(32) = (n + 31) div 32" by (rule mod_less)
    moreover have "unat (of_nat ((n + 31) div 32) :: c_int) = (n + 31) div 32 mod 2 ^ LENGTH(32)"
      by (rule unat_of_nat)
    ultimately show ?thesis by (simp only:)
  qed
  ultimately have "unat (drop_bit 5 ?a) = unat (of_nat ((n + 31) div 32) :: c_int)"
    by (simp only:)
  then have "drop_bit 5 ?a = of_nat ((n + 31) div 32)"
    by (simp only: word_unat_eq_iff)
  then have "push_bit 5 (drop_bit 5 ?a) = of_nat ((n + 31) div 32 * 32)"
    by (simp add: push_bit_eq_mult)
  moreover have "ALIGN_UP (of_nat n) 32 = ?a AND NOT 31"
    by (simp add: ALIGN_UP_def)
  ultimately show ?thesis by (simp only: and_not_31)
qed

lemma c_div_32:
  assumes "q * 32 < 2 ^ 31"
  shows "c_div (of_nat (q * 32)) 32 = of_nat q"
proof -
  have s: "sint (of_nat (q * 32) :: c_int) = int (q * 32)" using assms by (rule sint_of_nat_int)
  have "sint (32 :: c_int) = 32" by simp
  with s show ?thesis
    by (cases "q = 0") (simp_all add: c_div_def)
qed

lemma bitmap_elts:
  assumes "n < 2 ^ 27"
  shows "c_div (ALIGN_UP (of_nat n) 32) 32 = of_nat ((n + 31) div 32)"
proof -
  have "(n + 31) div 32 * 32 \<le> n + 31" by simp
  also have "\<dots> < 2 ^ 31" using assms by simp
  finally show ?thesis by (simp only: ALIGN_UP_32 [OF assms] c_div_32)
qed


lemma immobile_counts:
  assumes "FIXEDOBJ_SPACE_SIZE b div IMMOBILE_CARD_BYTES b < 2 ^ 27"
    and "VARYOBJ_SPACE_SIZE b div IMMOBILE_CARD_BYTES b < 2 ^ 27"
  shows "unat (fixedobj_pages_nbytes b) = 8 * (FIXEDOBJ_SPACE_SIZE b div IMMOBILE_CARD_BYTES b)"
    and "unat (touched_bits_nbytes b) =
           4 * ((VARYOBJ_SPACE_SIZE b div IMMOBILE_CARD_BYTES b + 31) div 32)"
    and "unat (varyobj_pages_nbytes b) = 4 * (VARYOBJ_SPACE_SIZE b div IMMOBILE_CARD_BYTES b)"
    and "0 \<le> sint (fixedobj_pages_nbytes b)"
    and "0 \<le> sint (touched_bits_nbytes b)"
    and "0 \<le> sint (varyobj_pages_nbytes b)"
proof -
  let ?f = "FIXEDOBJ_SPACE_SIZE b div IMMOBILE_CARD_BYTES b"
  let ?v = "VARYOBJ_SPACE_SIZE b div IMMOBILE_CARD_BYTES b"
  have q: "(?v + 31) div 32 < 2 ^ 27" using assms(2) by simp
  have f: "fixedobj_pages_nbytes b = of_nat (8 * ?f)"
    using npages_count(1) [OF assms(1), of 8]
    by (simp add: fixedobj_pages_nbytes_def immobile_npages_def)
  have t: "touched_bits_nbytes b = of_nat (4 * ((?v + 31) div 32))"
    using npages_count(1) [OF q, of 4]
    by (simp add: touched_bits_nbytes_def immobile_npages_def bitmap_elts [OF assms(2)])
  have v: "varyobj_pages_nbytes b = of_nat (4 * ?v)"
    using npages_count(1) [OF assms(2), of 4]
    by (simp add: varyobj_pages_nbytes_def immobile_npages_def)
  show "unat (fixedobj_pages_nbytes b) = 8 * ?f"
    using npages_count(2) [OF assms(1), of 8] by (simp only: f)
  show "unat (touched_bits_nbytes b) = 4 * ((?v + 31) div 32)"
    using npages_count(2) [OF q, of 4] by (simp only: t)
  show "unat (varyobj_pages_nbytes b) = 4 * ?v"
    using npages_count(2) [OF assms(2), of 4] by (simp only: v)
  show "0 \<le> sint (fixedobj_pages_nbytes b)"
    using npages_count(3) [OF assms(1), of 8] by (simp only: f)
  show "0 \<le> sint (touched_bits_nbytes b)"
    using npages_count(3) [OF q, of 4] by (simp only: t)
  show "0 \<le> sint (varyobj_pages_nbytes b)"
    using npages_count(3) [OF assms(2), of 4] by (simp only: v)
qed

lemma usage_small:
  assumes "unat (w :: uword_t) < 2 ^ 31"
  shows "long_of_int (int_of_long w) = w" and "0 \<le> sint w"
  using long_of_int_of_long [OF assms] small_sint [OF assms] by simp_all

subsection \<open>Evaluation on numerals\<close>

lemma le_bytes_numeral:
  "le_bytes (numeral k) v = of_nat v # le_bytes (pred_numeral k) (v div 256)"
  using le_bytes.simps(2) [of "pred_numeral k" v] by (simp only: numeral_eq_Suc [symmetric])

lemma replicate_numeral:
  "replicate (numeral k) x = x # replicate (pred_numeral k) x"
  using replicate.simps(2) [of "pred_numeral k" x] by (simp only: numeral_eq_Suc [symmetric])

subsection \<open>The writer\<close>

lemmas eval_defs =
  build0_def heap0_def thread0_def thread1_def file0_def
  thread_ici_def thread_sp_def read_TLS_def peek_def poke_def N_WORD_BYTES_def WORD_SHIFT_def
  load64_def store64_def load32_def store32_def store16_def fixnum_value_def make_fixnum_def
  int_of_long_def long_of_int_def c_div_def ALIGN_UP_def immobile_npages_def
  fits_def chunk_def fixedobj_usage_def varyobj_usage_def fixedobj_pages_nbytes_def
  touched_bits_nbytes_def varyobj_pages_nbytes_def stack_offset_def
  save_preamble_def save_thread_preamble_def sizeof_crash_preamble_def
  sizeof_crash_thread_preamble_def CRASH_PREAMBLE_SIGNATURE_def SB_Crash_def


lemma save_threads_fail:
  assumes "t \<in> set ts" and "\<And>fd. \<exists>e. save_thread b self sp0 pre t fd = Inl e"
  shows "\<exists>e. save_threads b self sp0 pre ts fd = Inl e"
  using assms(1)
proof (induction ts arbitrary: fd)
  case Nil
  then show ?case by simp
next
  case (Cons u us)
  show ?case
  proof (cases "save_thread b self sp0 pre u fd")
    case (Inl e)
    then show ?thesis by simp
  next
    case (Inr fd')
    show ?thesis
    proof (cases "t = u")
      case True
      with assms(2) [of fd] Inr show ?thesis by simp
    next
      case False
      with Cons.prems have "t \<in> set us" by simp
      from Cons.IH [OF this, of fd'] Inr show ?thesis by simp
    qed
  qed
qed

text \<open>
  C10.  When some thread other than the capturing one has no interrupt context (its
  \<open>FREE_INTERRUPT_CONTEXT_INDEX\<close> reads as 0), its round of the loop stops the process with
  "No stackptr for crash dump", and \<open>save_gc_crashdump\<close> ends in a fatal error whatever
  the file does; so it returns only when every other thread was stopped in an interrupt
  context.
\<close>

theorem capture_needs_interrupt_contexts:
  assumes "t \<in> set (all_threads rt)" and "th t \<noteq> self" and "thread_ici b t = Inr 0"
  shows "save_thread b self sp0 pre t fd0 = Inl No_stackptr \<and>
         (\<exists>e. save_gc_crashdump b rt self sp0 fd = Inl e)"
proof
  have one: "save_thread b self sp0 pre t f = Inl No_stackptr" for pre f
    using assms(2,3) by (simp add: save_thread_def thread_sp_def)
  then show "save_thread b self sp0 pre t fd0 = Inl No_stackptr" .
  have "\<exists>e. save_threads b self sp0 pre (all_threads rt) f = Inl e" for pre f
  proof (rule save_threads_fail [OF assms(1)])
    fix fd
    show "\<exists>e. save_thread b self sp0 pre t fd = Inl e" using one by blast
  qed
  then show "\<exists>e. save_gc_crashdump b rt self sp0 fd = Inl e"
    by (cases "save_heap b rt (save_preamble b rt) fd"; simp add: save_gc_crashdump_def Let_def)
       (metis bindE_Inl bindE_Inr sum.exhaust)
qed

theorem capture_needs_interrupt_contexts_witness:
  "thread0\<lparr> th := 0x7000 \<rparr> \<in> set (all_threads heap_unstopped) \<and>
   th (thread0\<lparr> th := 0x7000 \<rparr>) \<noteq> 0x6000 \<and>
   thread_ici build0 (thread0\<lparr> th := 0x7000 \<rparr>) = Inr 0 \<and>
   save_thread build0 0x6000 0x4FF8 (save_preamble build0 heap_unstopped)
     (thread0\<lparr> th := 0x7000 \<rparr>) file0 = Inl No_stackptr \<and>
   (\<exists>e. save_gc_crashdump build0 heap_unstopped 0x6000 0x4FF8 file0 = Inl e)"
proof -
  have h1: "thread0\<lparr> th := 0x7000 \<rparr> \<in> set (all_threads heap_unstopped)"
    by (simp add: heap_unstopped_def)
  have h2: "th (thread0\<lparr> th := 0x7000 \<rparr>) \<noteq> 0x6000" by simp
  have h3: "thread_ici build0 (thread0\<lparr> th := 0x7000 \<rparr>) = Inr 0"
    by (simp add: eval_defs)
  show ?thesis
    using capture_needs_interrupt_contexts [OF h1 h2 h3] h1 h2 h3 by blast
qed

text \<open>
  C5, as stated, fails: the page table of the dynamic space has a capacity of two pages
  here, and the writer emits the entry of the one page below \<open>next_free_page\<close>; with the
  same tables and \<open>next_free_page = 2\<close> it emits two entries.
\<close>

theorem page_table_written_up_to_next_free_page:
  "page_table_pages heap0 = 2 \<and> page_table_pages heap_wide = 2 \<and>
   page_table heap0 = [7, 0, 0, 9, 0, 0] \<and> page_table heap_wide = [7, 0, 0, 9, 0, 0] \<and>
   sizeof_page build0 = 2 \<and>
   save_heap build0 heap0 (save_preamble build0 heap0) file0 =
     Inr (file0\<lparr>written := preamble_bytes (save_preamble build0 heap0) @
            [10, 11, 12, 13] @ [20, 21, 22, 23, 24, 25, 26, 27] @ [7, 0] @ [1, 0]\<rparr>) \<and>
   save_heap build0 heap_wide (save_preamble build0 heap_wide) file0 =
     Inr (file0\<lparr>written := preamble_bytes (save_preamble build0 heap_wide) @
            [10, 11, 12, 13] @ [20, 21, 22, 23, 24, 25, 26, 27, 0, 0, 0, 0, 0, 0, 0, 0] @
            [7, 0, 0, 9] @ [1, 0]\<rparr>)"
proof -
  have ok: "heap_ok build0 heap0" "heap_ok build0 heap_wide"
    by (simp_all add: heap_ok_def heap_wide_def eval_defs)
  have f: "outcomes file0 = []" by (simp add: file0_def)
  have i0: "heap_image build0 heap0 = preamble_bytes (save_preamble build0 heap0) @
      [10, 11, 12, 13] @ [20, 21, 22, 23, 24, 25, 26, 27] @ [7, 0] @ [1, 0]"
    by (simp add: heap_image_def chunk_def build0_def heap0_def)
  have i1: "heap_image build0 heap_wide = preamble_bytes (save_preamble build0 heap_wide) @
      [10, 11, 12, 13] @ [20, 21, 22, 23, 24, 25, 26, 27, 0, 0, 0, 0, 0, 0, 0, 0] @
      [7, 0, 0, 9] @ [1, 0]"
    by (simp add: heap_image_def chunk_def build0_def heap0_def heap_wide_def)
  show ?thesis
    using save_heap_image [OF ok(1) f] save_heap_image [OF ok(2) f]
    by (simp add: i0 i1) (simp add: heap0_def heap_wide_def build0_def file0_def)
qed

text \<open>
  C5, amended.  For a file that takes every write in full, the writer emits, after the
  preamble: the static space up to its free pointer; the dynamic space up to
  \<open>next_free_page\<close> pages; \<open>sizeof (struct page) * next_free_page\<close> bytes of the page
  table, the entries of these pages; \<open>1 + gc_card_table_mask\<close> bytes of card marks; each
  immobile space up to its free pointer; 8 bytes for every card of the fixed-size space
  from its page table; 4 bytes for every 32 cards of the variable-size space, rounded up,
  from the touched bits; and 4 bytes for every card of that space from its page table.  So
  when the tables of card marks, of touched bits and of immobile pages have these sizes,
  which do not depend on how much of a space is in use, they are written in full.
\<close>

theorem capture_sections:
  assumes "heap_ok b rt" and "outcomes fd = []"
    and "length (gc_card_mark rt) = unat (1 + gc_card_table_mask rt)"
    and "unat (fixedobj_free_pointer_g rt - FIXEDOBJ_SPACE_START rt) < 2 ^ 31"
    and "unat (fixedobj_free_pointer_g rt - FIXEDOBJ_SPACE_START rt) \<le> length (fixedobj_space rt)"
    and "unat (varyobj_free_pointer_g rt - VARYOBJ_SPACE_START rt) < 2 ^ 31"
    and "unat (varyobj_free_pointer_g rt - VARYOBJ_SPACE_START rt) \<le> length (varyobj_space rt)"
    and "FIXEDOBJ_SPACE_SIZE b div IMMOBILE_CARD_BYTES b < 2 ^ 27"
    and "VARYOBJ_SPACE_SIZE b div IMMOBILE_CARD_BYTES b < 2 ^ 27"
    and "length (fixedobj_pages rt) = 8 * (FIXEDOBJ_SPACE_SIZE b div IMMOBILE_CARD_BYTES b)"
    and "length (varyobj_page_touched_bits rt) =
           4 * ((VARYOBJ_SPACE_SIZE b div IMMOBILE_CARD_BYTES b + 31) div 32)"
    and "length (varyobj_pages rt) = 4 * (VARYOBJ_SPACE_SIZE b div IMMOBILE_CARD_BYTES b)"
  shows "\<exists>fd1 fd2.
           save_heap b rt (save_preamble b rt) fd = Inr fd1 \<and>
           save_immobile b rt fd1 = Inr fd2 \<and>
           written fd2 = written fd @ preamble_bytes (save_preamble b rt) @
             take (unat (static_space_free_pointer rt - STATIC_SPACE_START b)) (static_space rt) @
             take (unat (next_free_page rt * of_nat (GENCGC_PAGE_BYTES b))) (dynamic_space rt) @
             take (unat (of_nat (sizeof_page b) * next_free_page rt)) (page_table rt) @
             gc_card_mark rt @
             take (unat (fixedobj_free_pointer_g rt - FIXEDOBJ_SPACE_START rt)) (fixedobj_space rt) @
             fixedobj_pages rt @
             take (unat (varyobj_free_pointer_g rt - VARYOBJ_SPACE_START rt)) (varyobj_space rt) @
             varyobj_page_touched_bits rt @
             varyobj_pages rt"
proof -
  note c = immobile_counts [OF assms(8,9)]
  note uf = usage_small [OF assms(4)] and uv = usage_small [OF assms(6)]
  have im: "immobile_ok b rt"
    using assms(5,7,10,11,12) c uf uv
    by (simp add: immobile_ok_def fits_def fixedobj_usage_def varyobj_usage_def)
  let ?fd1 = "fd\<lparr>written := written fd @ heap_image b rt\<rparr>"
  have o1: "outcomes ?fd1 = []" using assms(2) by simp
  have ii: "immobile_image b rt =
      take (unat (fixedobj_free_pointer_g rt - FIXEDOBJ_SPACE_START rt)) (fixedobj_space rt) @
      fixedobj_pages rt @
      take (unat (varyobj_free_pointer_g rt - VARYOBJ_SPACE_START rt)) (varyobj_space rt) @
      varyobj_page_touched_bits rt @ varyobj_pages rt"
    using assms(10,11,12) c(1,2,3) uf(1) uv(1)
    by (simp add: immobile_image_def chunk_def fixedobj_usage_def varyobj_usage_def)
  have hi: "heap_image b rt = preamble_bytes (save_preamble b rt) @
      take (unat (static_space_free_pointer rt - STATIC_SPACE_START b)) (static_space rt) @
      take (unat (next_free_page rt * of_nat (GENCGC_PAGE_BYTES b))) (dynamic_space rt) @
      take (unat (of_nat (sizeof_page b) * next_free_page rt)) (page_table rt) @
      gc_card_mark rt"
    using assms(3) by (simp add: heap_image_def chunk_def)
  show ?thesis
    using save_heap_image [OF assms(1,2)] save_immobile_image [OF im o1]
    by (simp add: hi ii)
qed

theorem capture_sections_witness:
  "heap_ok build0 heap0 \<and> outcomes file0 = [] \<and>
   length (gc_card_mark heap0) = unat (1 + gc_card_table_mask heap0) \<and>
   unat (fixedobj_free_pointer_g heap0 - FIXEDOBJ_SPACE_START heap0) < 2 ^ 31 \<and>
   unat (fixedobj_free_pointer_g heap0 - FIXEDOBJ_SPACE_START heap0) \<le> length (fixedobj_space heap0) \<and>
   unat (varyobj_free_pointer_g heap0 - VARYOBJ_SPACE_START heap0) < 2 ^ 31 \<and>
   unat (varyobj_free_pointer_g heap0 - VARYOBJ_SPACE_START heap0) \<le> length (varyobj_space heap0) \<and>
   FIXEDOBJ_SPACE_SIZE build0 div IMMOBILE_CARD_BYTES build0 < 2 ^ 27 \<and>
   VARYOBJ_SPACE_SIZE build0 div IMMOBILE_CARD_BYTES build0 < 2 ^ 27 \<and>
   length (fixedobj_pages heap0) = 8 * (FIXEDOBJ_SPACE_SIZE build0 div IMMOBILE_CARD_BYTES build0) \<and>
   length (varyobj_page_touched_bits heap0) =
     4 * ((VARYOBJ_SPACE_SIZE build0 div IMMOBILE_CARD_BYTES build0 + 31) div 32) \<and>
   length (varyobj_pages heap0) = 4 * (VARYOBJ_SPACE_SIZE build0 div IMMOBILE_CARD_BYTES build0) \<and>
   (\<exists>fd1 fd2.
      save_heap build0 heap0 (save_preamble build0 heap0) file0 = Inr fd1 \<and>
      save_immobile build0 heap0 fd1 = Inr fd2 \<and>
      written fd2 =
        [0x20, 0, 0x78, 0, 0, 0, 0, 0, 0, 0x10, 0, 0, 0, 0, 0, 0, 4, 0, 0, 0, 0, 0, 0, 0,
         0, 0x20, 0, 0, 0, 0, 0, 0, 1, 0, 0, 0, 0, 0, 0, 0, 4, 0, 0, 0, 1, 0, 0, 0,
         0, 0x30, 0, 0, 0, 0, 0, 0, 8, 0, 0, 0, 0, 0, 0, 0, 4, 0x30, 0, 0, 0, 0, 0, 0,
         0, 0x38, 0, 0, 0, 0, 0, 0, 8, 0, 0, 0, 0, 0, 0, 0, 4, 0x38, 0, 0, 0, 0, 0, 0,
         2, 0, 0, 0, 0x20, 0, 0, 0, 3, 0x20, 0, 0, 0, 0, 0, 0, 0, 1, 0x5A, 0xA5,
         0x10, 0, 0, 0] @
        [10, 11, 12, 13] @ [20, 21, 22, 23, 24, 25, 26, 27] @ [7, 0] @ [1, 0] @
        [30, 31, 32, 33] @ [1, 2, 3, 4, 5, 6, 7, 8, 9, 10, 11, 12, 13, 14, 15, 16] @
        [40, 41, 42, 43] @ [3, 0, 0, 0] @ [1, 0, 0, 0, 2, 0, 0, 0])"
proof -
  have h1: "heap_ok build0 heap0" by (simp add: heap_ok_def eval_defs)
  have h2: "outcomes file0 = []" by (simp add: file0_def)
  have h3: "length (gc_card_mark heap0) = unat (1 + gc_card_table_mask heap0)"
    by (simp add: heap0_def)
  have h4: "unat (fixedobj_free_pointer_g heap0 - FIXEDOBJ_SPACE_START heap0) < 2 ^ 31"
    and h5: "unat (fixedobj_free_pointer_g heap0 - FIXEDOBJ_SPACE_START heap0)
               \<le> length (fixedobj_space heap0)"
    and h6: "unat (varyobj_free_pointer_g heap0 - VARYOBJ_SPACE_START heap0) < 2 ^ 31"
    and h7: "unat (varyobj_free_pointer_g heap0 - VARYOBJ_SPACE_START heap0)
               \<le> length (varyobj_space heap0)"
    by (simp_all add: heap0_def)
  have h8: "FIXEDOBJ_SPACE_SIZE build0 div IMMOBILE_CARD_BYTES build0 < 2 ^ 27"
    and h9: "VARYOBJ_SPACE_SIZE build0 div IMMOBILE_CARD_BYTES build0 < 2 ^ 27"
    and h10: "length (fixedobj_pages heap0) =
                8 * (FIXEDOBJ_SPACE_SIZE build0 div IMMOBILE_CARD_BYTES build0)"
    and h11: "length (varyobj_page_touched_bits heap0) =
                4 * ((VARYOBJ_SPACE_SIZE build0 div IMMOBILE_CARD_BYTES build0 + 31) div 32)"
    and h12: "length (varyobj_pages heap0) =
                4 * (VARYOBJ_SPACE_SIZE build0 div IMMOBILE_CARD_BYTES build0)"
    by (simp_all add: heap0_def build0_def)
  have pre: "preamble_bytes (save_preamble build0 heap0) =
        [0x20, 0, 0x78, 0, 0, 0, 0, 0, 0, 0x10, 0, 0, 0, 0, 0, 0, 4, 0, 0, 0, 0, 0, 0, 0,
         0, 0x20, 0, 0, 0, 0, 0, 0, 1, 0, 0, 0, 0, 0, 0, 0, 4, 0, 0, 0, 1, 0, 0, 0,
         0, 0x30, 0, 0, 0, 0, 0, 0, 8, 0, 0, 0, 0, 0, 0, 0, 4, 0x30, 0, 0, 0, 0, 0, 0,
         0, 0x38, 0, 0, 0, 0, 0, 0, 8, 0, 0, 0, 0, 0, 0, 0, 4, 0x38, 0, 0, 0, 0, 0, 0,
         2, 0, 0, 0, 0x20, 0, 0, 0, 3, 0x20, 0, 0, 0, 0, 0, 0, 0, 1, 0x5A, 0xA5,
         0x10, 0, 0, 0]"
    by (simp add: preamble_bytes_def eval_defs le_bytes_numeral)
  show ?thesis
    using capture_sections [OF h1 h2 h3 h4 h5 h6 h7 h8 h9 h10 h11 h12]
      h1 h2 h3 h4 h5 h6 h7 h8 h9 h10 h11 h12
    by (simp add: pre) (simp add: heap0_def build0_def file0_def)
qed

text \<open>
  C3.  The register snapshot is written with \<open>write\<close>, not \<open>checked_write\<close>: on a
  file that takes 5 of the 16 bytes of the snapshot of \<open>thread1\<close>, \<open>save_gc_crashdump\<close>
  returns normally with an image of 337 bytes, where the same capture on a file that takes
  every write in full gives 348.
\<close>

theorem snapshot_short_write_unnoticed:
  "map_sum id (\<lambda>f. length (written f))
     (save_gc_crashdump build0 heap0 0x6000 0x4FF8 file_short) = Inr 337 \<and>
   map_sum id (\<lambda>f. length (written f))
     (save_gc_crashdump build0 heap0 0x6000 0x4FF8 file0) = Inr 348"
  by (simp add: save_gc_crashdump_def save_heap_def save_immobile_def save_thread_def
       checked_write_def sys_write_def file_short_def preamble_bytes_def thread_preamble_bytes_def
       eval_defs Let_def)

text \<open>
  C8.  The records of the two threads in the image that \<open>save_gc_crashdump\<close> returns with
  on the file that takes 5 bytes of the register snapshot.  \<open>thread0\<close>, which has no
  interrupt context, gives its preamble (address \<open>0x6000\<close>, \<open>has_context\<close> 0, 8 bytes of
  control stack, the distance from the stack pointer \<open>0x4FF8\<close> to the end \<open>0x5000\<close>, no
  bytes of binding stack), these 8 bytes and its thread-local block.  \<open>thread1\<close>, which
  has one, gives a preamble with \<open>has_context\<close> 1 that is followed by 5 bytes of its
  snapshot of 16 bytes, and then by its stacks: the snapshot is written with \<open>write\<close>,
  whose result is not looked at.
\<close>

theorem thread_records_with_partial_snapshot:
  "thread_ici build0 thread0 = Inr 0 \<and> thread_ici build0 thread1 = Inr 1 \<and>
   interrupt_context thread1 = [3, 3, 3, 3, 3, 3, 3, 3, 0xF8, 0x7F, 0, 0, 0, 0, 0, 0] \<and>
   map_sum id (\<lambda>f. drop 172 (written f))
     (save_gc_crashdump build0 heap0 0x6000 0x4FF8 file_short) =
   Inr ([0, 0x60, 0, 0, 0, 0, 0, 0, 0, 0, 0, 0, 0, 0, 0, 0,
         8, 0, 0, 0, 0, 0, 0, 0, 0, 0, 0, 0, 0, 0, 0, 0] @
        [1, 0x20, 0, 0, 0, 0, 0, 0] @
        [4, 4, 4, 4, 4, 4, 4, 4, 6, 6, 6, 6, 6, 6, 6, 6,
         0, 0, 0, 0, 0, 0, 0, 0, 7, 7, 7, 7, 7, 7, 7, 7] @
        [0, 0x70, 0, 0, 0, 0, 0, 0, 1, 0, 0, 0, 0, 0, 0, 0,
         8, 0, 0, 0, 0, 0, 0, 0, 8, 0, 0, 0, 0, 0, 0, 0] @
        [3, 3, 3, 3, 3] @
        [0x0F, 0x20, 0, 0, 0, 0, 0, 0] @
        [9, 9, 9, 9, 9, 9, 9, 9] @
        [1, 1, 1, 1, 1, 1, 1, 1, 2, 2, 2, 2, 2, 2, 2, 2,
         2, 0, 0, 0, 0, 0, 0, 0, 5, 5, 5, 5, 5, 5, 5, 5] @
        [0x53, 0x42, 0x2E, 0x43, 0x72, 0x61, 0x73, 0x68])"
  by (simp add: save_gc_crashdump_def save_heap_def save_immobile_def save_thread_def
       checked_write_def sys_write_def file_short_def preamble_bytes_def thread_preamble_bytes_def
       eval_defs Let_def le_bytes_numeral)

subsection \<open>Readers\<close>

lemma bindR_Inr_iff:
  "bindR m k fd = Inr y \<longleftrightarrow> (\<exists>x fd'. m fd = Inr (x, fd') \<and> k x fd' = Inr y)"
  by (auto simp: bindR_def split: sum.splits)

lemma bindR_Inl: "m fd = Inl e \<Longrightarrow> bindR m k fd = Inl e"
  by (simp add: bindR_def)

lemma bindR_Inr: "m fd = Inr (x, fd') \<Longrightarrow> bindR m k fd = k x fd'"
  by (simp add: bindR_def)

lemma local_readerI:
  assumes "\<And>fd x rest. r fd = Inr (x, rest) \<Longrightarrow>
     \<exists>used. fd = used @ rest \<and> (\<forall>ys. r (used @ ys) = Inr (x, ys)) \<and>
            (\<forall>k<length used. r (take k used) = Inl Read_failed)"
  shows "local_reader r"
  using assms unfolding local_reader_def by blast

lemma local_readerD:
  assumes "local_reader r" and "r fd = Inr (x, rest)"
  shows "\<exists>used. fd = used @ rest \<and> (\<forall>ys. r (used @ ys) = Inr (x, ys)) \<and>
           (\<forall>k<length used. r (take k used) = Inl Read_failed)"
  using assms unfolding local_reader_def by blast

named_theorems local_intros

lemma local_returnR [local_intros]: "local_reader (returnR x)"
  by (rule local_readerI) (auto simp: returnR_def)

lemma local_loseR [local_intros]: "local_reader (loseR e)"
  by (rule local_readerI) (simp add: loseR_def)

lemma local_in_bounds [local_intros]: "local_reader (in_bounds m)"
  by (cases m) (simp_all add: in_bounds_def local_intros)

lemma local_liftR [local_intros]: "local_reader (liftR m)"
  by (cases m) (simp_all add: liftR_def local_intros)

lemma local_gc_assert [local_intros]: "local_reader (gc_assert c)"
  by (simp add: gc_assert_def local_intros)

lemma local_if [local_intros]:
  "(c \<Longrightarrow> local_reader r) \<Longrightarrow> (\<not> c \<Longrightarrow> local_reader s) \<Longrightarrow> local_reader (if c then r else s)"
  by simp

lemma of_nat_eq_word_le:
  assumes "(of_nat m :: uword_t) = n" and "m \<le> unat n"
  shows "m = unat n"
proof -
  have "unat n < 2 ^ LENGTH(64)" by (rule unsigned_less)
  with assms(2) have "m < 2 ^ LENGTH(64)" by simp
  then have "unat (of_nat m :: uword_t) = m" by (simp add: unat_of_nat)
  with assms(1) show ?thesis by simp
qed

lemma checked_read_Inr:
  assumes "checked_read n fd = Inr (buf, rest)"
  shows "fd = buf @ rest \<and> (sint n < 0 \<and> buf = [] \<or> 0 \<le> sint n \<and> length buf = unat n)"
proof (cases "sint n < 0")
  case True
  with assms show ?thesis
    by (simp add: checked_read_def sys_read_def split: if_splits)
next
  case False
  with assms have eq: "(of_nat (length (take (unat n) fd)) :: uword_t) = n"
    and buf: "buf = take (unat n) fd" and rest: "rest = drop (unat n) fd"
    by (auto simp: checked_read_def sys_read_def split: if_splits)
  have "length (take (unat n) fd) = unat n"
    using eq by (rule of_nat_eq_word_le) simp
  with False buf rest show ?thesis by simp
qed

lemma checked_read_short:
  assumes "0 \<le> sint n" and "length fd < unat n"
  shows "checked_read n fd = Inl Read_failed"
proof -
  have "(of_nat (length fd) :: uword_t) \<noteq> n"
  proof
    assume "(of_nat (length fd) :: uword_t) = n"
    then have "length fd = unat n" using assms(2) by (intro of_nat_eq_word_le) simp_all
    with assms(2) show False by simp
  qed
  with assms show ?thesis by (simp add: checked_read_def sys_read_def)
qed

lemma checked_read_negative:
  assumes "sint n < 0" and "checked_read n fd = Inr (buf, rest)"
  shows "checked_read n fd' = Inr ([], fd')"
  using assms by (simp add: checked_read_def sys_read_def split: if_splits)

lemma local_checked_read [local_intros]: "local_reader (checked_read n)"
proof (rule local_readerI)
  fix fd buf rest
  assume ok: "checked_read n fd = Inr (buf, rest)"
  from checked_read_Inr [OF ok] have fd: "fd = buf @ rest"
    and c: "sint n < 0 \<and> buf = [] \<or> 0 \<le> sint n \<and> length buf = unat n" by simp_all
  from c show "\<exists>used. fd = used @ rest \<and> (\<forall>ys. checked_read n (used @ ys) = Inr (buf, ys)) \<and>
      (\<forall>k<length used. checked_read n (take k used) = Inl Read_failed)"
  proof
    assume "sint n < 0 \<and> buf = []"
    then show ?thesis
      using fd checked_read_negative [OF _ ok] by (intro exI [of _ "[]"]) simp
  next
    assume a: "0 \<le> sint n \<and> length buf = unat n"
    then have "\<And>ys. checked_read n (buf @ ys) = Inr (buf, ys)"
      by (simp add: checked_read_append)
    moreover have "\<And>k. k < length buf \<Longrightarrow> checked_read n (take k buf) = Inl Read_failed"
      using a by (intro checked_read_short) simp_all
    ultimately show ?thesis using fd by (intro exI [of _ buf]) simp
  qed
qed

lemma local_bindR [local_intros]:
  assumes m: "local_reader m" and k: "\<And>x. local_reader (k x)"
  shows "local_reader (bindR m k)"
proof (rule local_readerI)
  fix fd y rest
  assume "bindR m k fd = Inr (y, rest)"
  then obtain x fd' where 1: "m fd = Inr (x, fd')" and 2: "k x fd' = Inr (y, rest)"
    by (auto simp: bindR_Inr_iff)
  from local_readerD [OF m 1] obtain u1 where u1: "fd = u1 @ fd'"
    "\<And>ys. m (u1 @ ys) = Inr (x, ys)"
    "\<And>j. j < length u1 \<Longrightarrow> m (take j u1) = Inl Read_failed"
    by blast
  from local_readerD [OF k 2] obtain u2 where u2: "fd' = u2 @ rest"
    "\<And>ys. k x (u2 @ ys) = Inr (y, ys)"
    "\<And>j. j < length u2 \<Longrightarrow> k x (take j u2) = Inl Read_failed"
    by blast
  have a: "bindR m k ((u1 @ u2) @ ys) = Inr (y, ys)" for ys
    using u1(2) [of "u2 @ ys"] u2(2) [of ys] by (simp add: bindR_def)
  have b: "bindR m k (take j (u1 @ u2)) = Inl Read_failed" if "j < length (u1 @ u2)" for j
  proof (cases "j < length u1")
    case True
    then show ?thesis using u1(3) [of j] by (simp add: bindR_def)
  next
    case False
    then have t: "take j (u1 @ u2) = u1 @ take (j - length u1) u2" by simp
    from False that have "j - length u1 < length u2" by simp
    then have "bindR m k (u1 @ take (j - length u1) u2) = Inl Read_failed"
      using u1(2) [of "take (j - length u1) u2"] u2(3) [of "j - length u1"]
      by (simp add: bindR_def)
    then show ?thesis by (simp only: t)
  qed
  show "\<exists>used. fd = used @ rest \<and> (\<forall>ys. bindR m k (used @ ys) = Inr (y, ys)) \<and>
      (\<forall>j<length used. bindR m k (take j used) = Inl Read_failed)"
    using u1(1) u2(1) a b by (intro exI [of _ "u1 @ u2"]) simp
qed

lemma local_read_into [local_intros]: "local_reader (read_into n mem off)"
  by (simp add: read_into_def local_intros)

lemma local_load_heap: "local_reader (load_heap b p)"
  unfolding load_heap_def Let_def by (intro local_intros)

lemma local_load_immobile: "local_reader (load_immobile b p pre rt)"
  unfolding load_immobile_def Let_def by (intro local_intros)

lemma local_load_tls: "local_reader (load_tls b pre t)"
  unfolding load_tls_def Let_def by (intro local_intros)

lemma local_read_thread: "local_reader (read_thread b p pre i)"
  unfolding read_thread_def Let_def by (intro local_intros local_load_tls)

lemma local_load_thread: "local_reader (load_thread b p pre rt i)"
  unfolding load_thread_def by (intro local_intros local_read_thread)

lemma local_load_threads: "local_reader (load_threads b p pre rt n i acc)"
proof (induction n arbitrary: i acc)
  case 0
  show ?case by (simp add: local_intros)
next
  case (Suc n)
  show ?case by (simp only: load_threads.simps) (intro local_intros local_load_thread Suc)
qed

lemma local_load_body: "local_reader (load_body b p)"
  unfolding load_body_def
  by (intro local_intros local_load_heap local_load_immobile local_load_threads)

lemma local_load_trailer: "local_reader load_trailer"
  unfolding load_trailer_def by (intro local_intros)

lemma local_load_all: "local_reader (load_all b p)"
  unfolding load_all_def by (intro local_intros local_load_body local_load_trailer)

subsection \<open>Reading back the heap\<close>

lemma read_into_chunk:
  assumes "fits n src" and "unat n \<le> length mem"
  shows "read_into n mem 0 (chunk n src @ rest) = Inr (overlay (chunk n src) mem, rest)"
proof -
  from assms(1) have len: "length (chunk n src) = unat n" and nn: "0 \<le> sint n"
    by (simp_all add: fits_def chunk_def)
  have "checked_read n (chunk n src @ rest) = Inr (chunk n src, rest)"
    using len nn by (rule checked_read_append)
  then show ?thesis
    using assms(2) len
    by (simp add: read_into_def bindR_def poke_def in_bounds_def returnR_def overlay_def)
qed

lemma bindR_checked_read_append:
  assumes "length xs = unat n" and "0 \<le> sint n"
  shows "bindR (checked_read n) k (xs @ rest) = k xs rest"
  using checked_read_append [OF assms] by (simp add: bindR_def)

lemma bindR_read_into_chunk:
  assumes "fits n src" and "unat n \<le> length mem"
  shows "bindR (read_into n mem 0) k (chunk n src @ rest) = k (overlay (chunk n src) mem) rest"
  using read_into_chunk [OF assms] by (simp add: bindR_def)

lemma load_heap_image:
  assumes ok: "heap_ok b rt" and pr: "heap_restorable b p rt"
  shows "load_heap b p (heap_image b rt @ rest) =
           Inr ((save_preamble b rt, restored_heap b p rt), rest)"
proof -
  have pre: "bindR (checked_read (of_nat sizeof_crash_preamble)) k
               (preamble_bytes (save_preamble b rt) @ xs)
             = k (preamble_bytes (save_preamble b rt)) xs" for xs k
    by (rule bindR_checked_read_append) (simp_all add: sizeof_crash_preamble_def)
  have fields [simp]:
    "signature (save_preamble b rt) = long_of_int CRASH_PREAMBLE_SIGNATURE"
    "card_size (save_preamble b rt) = of_nat (GENCGC_CARD_BYTES b)"
    "static_nbytes (save_preamble b rt) = static_space_free_pointer rt - STATIC_SPACE_START b"
    "dynspace_start (save_preamble b rt) = DYNAMIC_SPACE_START rt"
    "dynspace_npages (save_preamble b rt) = next_free_page rt"
    "card_table_nbits (save_preamble b rt) = gc_card_table_nbits rt"
    "lisp_package_vector (save_preamble b rt) = lisp_package_vector_g rt"
    "sprof_enabled (save_preamble b rt) = ucast (sb_sprof_enabled rt)"
    by (simp_all add: save_preamble_def)
  from ok have f:
    "fits (static_space_free_pointer rt - STATIC_SPACE_START b) (static_space rt)"
    "fits (next_free_page rt * of_nat (GENCGC_PAGE_BYTES b)) (dynamic_space rt)"
    "fits (of_nat (sizeof_page b) * next_free_page rt) (page_table rt)"
    "fits (1 + gc_card_table_mask rt) (gc_card_mark rt)"
    by (simp_all add: heap_ok_def)
  from pr have r:
    "os_validate p (DYNAMIC_SPACE_START rt) (DEFAULT_DYNAMIC_SPACE_SIZE b) = DYNAMIC_SPACE_START rt"
    "new_card_table_mask p (gc_card_table_nbits rt) = gc_card_table_mask rt"
    "unat (static_space_free_pointer rt - STATIC_SPACE_START b) \<le> length (static_space (startup p))"
    "unat (next_free_page rt * of_nat (GENCGC_PAGE_BYTES b)) \<le> DEFAULT_DYNAMIC_SPACE_SIZE b"
    "unat (of_nat (sizeof_page b) * next_free_page rt) \<le> length (new_page_table p)"
    "unat (1 + gc_card_table_mask rt) \<le> length (new_card_mark p (gc_card_table_nbits rt))"
    by (simp_all add: heap_restorable_def)
  show ?thesis
    using f r
    by (simp add: load_heap_def heap_image_def pre Let_def gc_allocate_ptes_def
          bindR_read_into_chunk returnR_def restored_heap_def
          del: of_nat_mult of_nat_numeral)
qed

lemma load_immobile_image:
  assumes ok: "immobile_ok b rt" and pr: "immobile_restorable b p rt"
  shows "load_immobile b p (save_preamble b rt) r (immobile_image b rt @ rest) =
           Inr (restored_immobile b p rt r, rest)"
proof -
  have fields [simp]:
    "fixedobj_size (save_preamble b rt) = of_nat (FIXEDOBJ_SPACE_SIZE b)"
    "varyobj_size (save_preamble b rt) = of_nat (VARYOBJ_SPACE_SIZE b)"
    "fixedobj_start (save_preamble b rt) = FIXEDOBJ_SPACE_START rt"
    "varyobj_start (save_preamble b rt) = VARYOBJ_SPACE_START rt"
    "fixedobj_free_pointer (save_preamble b rt) = fixedobj_free_pointer_g rt"
    "varyobj_free_pointer (save_preamble b rt) = varyobj_free_pointer_g rt"
    by (simp_all add: save_preamble_def)
  from ok have f:
    "fits (fixedobj_usage rt) (fixedobj_space rt)"
    "fits (fixedobj_pages_nbytes b) (fixedobj_pages rt)"
    "fits (varyobj_usage rt) (varyobj_space rt)"
    "fits (touched_bits_nbytes b) (varyobj_page_touched_bits rt)"
    "fits (varyobj_pages_nbytes b) (varyobj_pages rt)"
    by (simp_all add: immobile_ok_def)
  from pr have r:
    "unat (fixedobj_usage rt) \<le> FIXEDOBJ_SPACE_SIZE b"
    "unat (varyobj_usage rt) \<le> VARYOBJ_SPACE_SIZE b"
    "unat (fixedobj_pages_nbytes b) \<le> length (new_fixedobj_pages p)"
    "unat (touched_bits_nbytes b) \<le> length (new_varyobj_page_touched_bits p)"
    "unat (varyobj_pages_nbytes b) \<le> length (new_varyobj_pages p)"
    by (simp_all add: immobile_restorable_def)
  have u: "long_of_int (int_of_long (fixedobj_free_pointer_g rt - FIXEDOBJ_SPACE_START rt))
             = fixedobj_usage rt"
          "long_of_int (int_of_long (varyobj_free_pointer_g rt - VARYOBJ_SPACE_START rt))
             = varyobj_usage rt"
          "long_of_int (immobile_npages b (FIXEDOBJ_SPACE_SIZE b)) * 8 = fixedobj_pages_nbytes b"
          "long_of_int (c_div (ALIGN_UP (immobile_npages b (VARYOBJ_SPACE_SIZE b)) 32) 32) * 4
             = touched_bits_nbytes b"
          "long_of_int (immobile_npages b (VARYOBJ_SPACE_SIZE b)) * 4 = varyobj_pages_nbytes b"
    by (simp_all add: fixedobj_usage_def varyobj_usage_def fixedobj_pages_nbytes_def
          touched_bits_nbytes_def varyobj_pages_nbytes_def)
  show ?thesis
    using f r
    by (simp add: load_immobile_def immobile_image_def gc_assert_def bindR_def [of "returnR ()"]
          returnR_def [of "()"] Let_def gc_init_immobile_def u
          bindR_read_into_chunk returnR_def restored_immobile_def)
qed

subsection \<open>Reading back a thread\<close>

lemma read_into_put:
  assumes "length xs = unat n" and "0 \<le> sint n" and "off + length xs \<le> length mem"
  shows "read_into n mem off (xs @ rest) = Inr (put mem off xs, rest)"
  using checked_read_append [OF assms(1,2)] assms(3)
  by (simp add: read_into_def bindR_def poke_def in_bounds_def returnR_def put_def)

lemma bindR_read_into_put:
  assumes "length xs = unat n" and "0 \<le> sint n" and "off + length xs \<le> length mem"
  shows "bindR (read_into n mem off) k (xs @ rest) = k (put mem off xs) rest"
  using read_into_put [OF assms] by (simp add: bindR_def)

lemma sint_small_int:
  fixes w :: c_int
  assumes "0 \<le> k" and "k < 2 ^ 31"
  shows "sint (word_of_int k :: c_int) = k"
proof -
  have "signed_take_bit 31 k = k"
    using assms by (intro signed_take_bit_int_eq_self) simp_all
  then show ?thesis by (simp add: signed_of_int)
qed

lemma sint_diff_int:
  fixes x y :: c_int
  assumes "0 \<le> sint y" and "sint y \<le> sint x"
  shows "sint (x - y) = sint x - sint y"
proof -
  have "sint x < 2 ^ 31" using sint_less [of x] by simp
  then have r: "0 \<le> sint x - sint y" "sint x - sint y < 2 ^ 31" using assms by simp_all
  have "x - y = word_of_int (sint x - sint y)" by simp
  then show ?thesis using sint_small_int [OF r] by simp
qed

lemma unat_long_of_int:
  assumes "0 \<le> sint i"
  shows "unat (long_of_int i) = nat (sint i)"
proof -
  have "int (unat (long_of_int i)) = sint (long_of_int i)"
    by (rule sint_nonneg_unat) (simp add: assms)
  then have "nat (int (unat (long_of_int i))) = nat (sint i)"
    by (simp only: sint_long_of_int)
  then show ?thesis by (simp only: nat_int)
qed

lemma load_tls_image:
  assumes src: "fits (long_of_int (tls_size pre)) src"
    and sz: "N_WORD_BYTES \<le> sizeof_thread b" "sizeof_thread b < 2 ^ 31"
    and sk: "sizeof_thread b - N_WORD_BYTES \<le> unat (long_of_int (tls_size pre))"
    and dst: "unat (long_of_int (tls_size pre)) \<le> length (tls f)"
  shows "load_tls b pre f (chunk (long_of_int (tls_size pre)) src @ rest) =
           Inr (f\<lparr>tls := put (tls f) (sizeof_thread b - N_WORD_BYTES)
                            (drop (sizeof_thread b - N_WORD_BYTES)
                               (chunk (long_of_int (tls_size pre)) src))\<rparr>, rest)"
proof -
  let ?skip = "sizeof_thread b - N_WORD_BYTES"
  let ?c = "chunk (long_of_int (tls_size pre)) src"
  define s :: c_int where "s = of_nat (sizeof_thread b) - of_nat N_WORD_BYTES"
  have s_eq: "s = of_nat ?skip" using sz(1) by (simp add: s_def)
  have "?skip < 2 ^ 31" using sz(2) by simp
  then have s_sint: "sint s = int ?skip" unfolding s_eq by (rule sint_of_nat_int)
  then have s_unat: "unat (long_of_int s) = ?skip"
    using unat_long_of_int [of s] by simp
  from src have t0: "0 \<le> sint (tls_size pre)" and len: "length ?c = unat (long_of_int (tls_size pre))"
    by (simp_all add: fits_def chunk_def)
  have t_unat: "unat (long_of_int (tls_size pre)) = nat (sint (tls_size pre))"
    using t0 by (rule unat_long_of_int)
  have le: "sint s \<le> sint (tls_size pre)" using sk s_sint t_unat t0 by simp
  have d_sint: "sint (tls_size pre - s) = sint (tls_size pre) - sint s"
    using _ le by (rule sint_diff_int) (simp add: s_sint)
  then have d0: "0 \<le> sint (long_of_int (tls_size pre - s))" using le by simp
  have d_unat: "unat (long_of_int (tls_size pre - s)) = length (drop ?skip ?c)"
    using unat_long_of_int [of "tls_size pre - s"] d_sint le s_sint t_unat len t0
    by (simp add: nat_diff_distrib)
  define hd_part where "hd_part = take ?skip ?c"
  define tl_part where "tl_part = drop ?skip ?c"
  have split: "?c = hd_part @ tl_part" by (simp add: hd_part_def tl_part_def)
  have l1: "length hd_part = unat (long_of_int s)"
    using sk len s_unat by (simp add: hd_part_def)
  have l2: "unat (long_of_int (tls_size pre - s)) = length tl_part"
    using d_unat by (simp add: tl_part_def)
  have s0: "0 \<le> sint (long_of_int s)" using s_sint by simp
  have r1: "bindR (checked_read (long_of_int s)) k (hd_part @ tl_part @ rest)
              = k hd_part (tl_part @ rest)" for k
    using l1 s0 by (rule bindR_checked_read_append)
  have fit: "?skip + length tl_part \<le> length (tls f)"
    using sk dst len by (simp add: tl_part_def)
  have r2: "bindR (read_into (long_of_int (tls_size pre - s)) (tls f) ?skip) k
              (tl_part @ rest) = k (put (tls f) ?skip tl_part) rest" for k
    using l2 [symmetric] d0 fit by (rule bindR_read_into_put)
  have main: "load_tls b pre f (hd_part @ tl_part @ rest) =
          Inr (f\<lparr>tls := put (tls f) ?skip tl_part\<rparr>, rest)"
    unfolding load_tls_def Let_def s_def [symmetric] r1 r2 by (simp add: returnR_def)
  have e: "?c @ rest = hd_part @ tl_part @ rest" using split by simp
  show ?thesis by (simp only: e main) (simp only: tl_part_def)
qed


lemma length_put [simp]: "off + length xs \<le> length mem \<Longrightarrow> length (put mem off xs) = length mem"
  by (simp add: put_def)

lemma length_overlay [simp]: "length xs \<le> length mem \<Longrightarrow> length (overlay xs mem) = length mem"
  by (simp add: overlay_def)

lemma poke_put: "off + length xs \<le> length mem \<Longrightarrow> poke mem off xs = Some (put mem off xs)"
  by (simp add: poke_def put_def)

lemma bindR_in_bounds_Some [simp]: "bindR (in_bounds (Some x)) k fd = k x fd"
  by (simp add: bindR_def in_bounds_def returnR_def)

lemma bindR_returnR [simp]: "bindR (returnR x) k fd = k x fd"
  by (simp add: bindR_def returnR_def)

lemma length_chunk: "fits n mem \<Longrightarrow> length (chunk n mem) = unat n"
  by (simp add: fits_def chunk_def)

lemma stack_offset_below:
  assumes "unat n \<le> length (control_stack f)"
  shows "stack_offset f (control_stack_end f - n) = length (control_stack f) - unat n"
  using assms by (simp add: stack_offset_def Let_def)

lemma stack_offset_interrupt_context [simp]:
  "stack_offset (t\<lparr>interrupt_context := c\<rparr>) sp = stack_offset t sp"
  by (simp add: stack_offset_def Let_def)

lemma read_thread_image:
  assumes ok: "thread_ok b self sp0 pre t" and rs: "thread_restorable b p self sp0 pre i t"
    and ici: "thread_ici b t = Inr ici" and sp: "thread_sp b self sp0 ici t = Inr sp"
  shows "read_thread b p pre i (thread_image b self sp0 pre t @ rest) =
           Inr ((restored_thread b p self sp0 pre i t, save_thread_preamble ici sp t), rest)"
proof -
  define f where "f = alloc_thread_struct p i"
  define n where "n = control_stack_end t - sp"
  define bn where "bn = binding_stack_pointer t - binding_stack_start t"
  define tp where "tp = save_thread_preamble ici sp t"
  define stackptr where "stackptr = control_stack_end f - n"
  define live where "live = take (unat n) (drop (stack_offset t sp) (control_stack t))"
  define snap where "snap = chunk (long_of_int (sizeof_context pre)) (interrupt_context t)"
  define cx where "cx = (if ici \<noteq> 0 then overlay snap (malloc p i) else malloc p i)"
  from ok ici sp have
    ctx: "ici \<noteq> 0 \<Longrightarrow> fits (long_of_int (sizeof_context pre)) (interrupt_context t)" and
    cs: "unat n < 2 ^ 31" "unat n \<le> length (control_stack t)" and
    bs: "unat bn < 2 ^ 31" "unat bn \<le> length (binding_stack t)" and
    tl: "fits (long_of_int (tls_size pre)) (tls t)"
    by (simp_all add: thread_ok_def n_def bn_def)
  from rs ici sp have
    i10: "i < 10" and
    mc: "ici \<noteq> 0 \<Longrightarrow> unat (long_of_int (sizeof_context pre)) \<le> length (malloc p i)" and
    msp: "reg_SP b + N_WORD_BYTES \<le> length (malloc p i)" and
    fcs: "unat n \<le> length (control_stack f)" and
    fbs: "unat bn \<le> length (binding_stack f)" and
    sz: "N_WORD_BYTES \<le> sizeof_thread b" "sizeof_thread b < 2 ^ 31" and
    sk: "sizeof_thread b - N_WORD_BYTES \<le> unat (long_of_int (tls_size pre))" and
    ftl: "unat (long_of_int (tls_size pre)) \<le> length (tls f)" and
    fici: "FREE_INTERRUPT_CONTEXT_INDEX b + N_WORD_BYTES \<le> length (tls f)"
    by (simp_all add: thread_restorable_def n_def bn_def f_def)
  have tp_fields:
    "control_stack_nbytes tp = n" "binding_stack_nbytes tp = bn"
    "has_context tp = (if ici \<noteq> 0 then 1 else 0)"
    using save_thread_preamble_small [of t sp ici] cs(1) bs(1)
    by (simp_all add: tp_def n_def bn_def) (simp add: save_thread_preamble_def Let_def)
  have img: "thread_image b self sp0 pre t =
      thread_preamble_bytes tp @ (if ici \<noteq> 0 then snap else []) @ live @
      chunk bn (binding_stack t) @ chunk (long_of_int (tls_size pre)) (tls t)"
    by (simp add: thread_image_def ici sp tp_def snap_def live_def n_def bn_def)
  have r1: "bindR (checked_read (of_nat sizeof_crash_thread_preamble)) k
              (thread_preamble_bytes tp @ xs) = k (thread_preamble_bytes tp) xs" for k xs
    by (rule bindR_checked_read_append) (simp_all add: sizeof_crash_thread_preamble_def)
  have r3: "bindR (if has_context tp \<noteq> 0
                   then read_into (long_of_int (sizeof_context pre)) (malloc p i) 0
                   else returnR (malloc p i)) k
              ((if ici \<noteq> 0 then snap else []) @ xs) = k cx xs" for k xs
  proof (cases "ici = 0")
    case True
    then show ?thesis by (simp add: tp_fields cx_def)
  next
    case False
    then show ?thesis
      using bindR_read_into_chunk [OF ctx mc, of k xs]
      by (simp add: tp_fields cx_def snap_def)
  qed
  have lc: "length cx = length (malloc p i)"
    using mc ctx by (cases "ici = 0") (simp_all add: cx_def snap_def length_chunk)
  have r4: "poke cx (reg_SP b) (store64 stackptr) =
              Some (put cx (reg_SP b) (store64 stackptr))"
    using msp lc by (intro poke_put) (simp add: N_WORD_BYTES_def)
  have n0: "0 \<le> sint n" using small_sint [OF cs(1)] by simp
  have off_t: "stack_offset t sp + unat n \<le> length (control_stack t)"
    using cs(2) by (simp add: stack_offset_def Let_def n_def)
  have llive: "length live = unat n" using off_t by (simp add: live_def)
  have off_f: "stack_offset f stackptr = length (control_stack f) - unat n"
    unfolding stackptr_def using fcs by (rule stack_offset_below)
  have r5: "bindR (read_into n (control_stack f) (stack_offset f stackptr)) k (live @ xs)
              = k (put (control_stack f) (stack_offset f stackptr) live) xs" for k xs
    using llive n0 by (rule bindR_read_into_put) (simp add: off_f llive fcs)
  have bfit: "fits bn (binding_stack t)"
    using small_sint [OF bs(1)] bs(2) by (simp add: fits_def)
  have r6: "bindR (read_into bn (binding_stack f) 0) k (chunk bn (binding_stack t) @ xs)
              = k (overlay (chunk bn (binding_stack t)) (binding_stack f)) xs" for k xs
    using bfit fbs by (rule bindR_read_into_chunk)
  define f3 where "f3 = f\<lparr> interrupt_context := put cx (reg_SP b) (store64 stackptr),
      control_stack := put (control_stack f) (stack_offset f stackptr) live,
      binding_stack := overlay (chunk bn (binding_stack t)) (binding_stack f) \<rparr>"
  have f3_tls: "tls f3 = tls f" by (simp add: f3_def)
  have r7: "bindR (load_tls b pre f3) k (chunk (long_of_int (tls_size pre)) (tls t) @ xs)
              = k (f3\<lparr>tls := put (tls f) (sizeof_thread b - N_WORD_BYTES)
                       (drop (sizeof_thread b - N_WORD_BYTES)
                          (chunk (long_of_int (tls_size pre)) (tls t)))\<rparr>) xs" for k xs
    using load_tls_image [OF tl sz sk, of f3 xs] ftl by (simp add: bindR_def f3_tls)
  have lt: "sizeof_thread b - N_WORD_BYTES +
              length (drop (sizeof_thread b - N_WORD_BYTES)
                        (chunk (long_of_int (tls_size pre)) (tls t))) \<le> length (tls f)"
    using sk ftl by (simp add: length_chunk [OF tl])
  have r8: "write_TLS (FREE_INTERRUPT_CONTEXT_INDEX b) v
              (f3\<lparr>tls := put (tls f) (sizeof_thread b - N_WORD_BYTES)
                       (drop (sizeof_thread b - N_WORD_BYTES)
                          (chunk (long_of_int (tls_size pre)) (tls t)))\<rparr>)
            = Some (f3\<lparr>tls := put (put (tls f) (sizeof_thread b - N_WORD_BYTES)
                       (drop (sizeof_thread b - N_WORD_BYTES)
                          (chunk (long_of_int (tls_size pre)) (tls t))))
                     (FREE_INTERRUPT_CONTEXT_INDEX b) (store64 v)\<rparr>)" for v
    using fici lt by (simp add: write_TLS_def poke_put N_WORD_BYTES_def)
  have res: "restored_thread b p self sp0 pre i t =
     f3\<lparr>tls := put (put (tls f) (sizeof_thread b - N_WORD_BYTES)
                       (drop (sizeof_thread b - N_WORD_BYTES)
                          (chunk (long_of_int (tls_size pre)) (tls t))))
                     (FREE_INTERRUPT_CONTEXT_INDEX b) (store64 (make_fixnum b 1))\<rparr>"
    by (simp add: restored_thread_def ici sp Let_def f3_def f_def [symmetric] n_def [symmetric]
          stackptr_def [symmetric] cx_def snap_def live_def bn_def)
  have "read_thread b p pre i (thread_image b self sp0 pre t @ rest) =
      Inr ((f3\<lparr>tls := put (put (tls f) (sizeof_thread b - N_WORD_BYTES)
                       (drop (sizeof_thread b - N_WORD_BYTES)
                          (chunk (long_of_int (tls_size pre)) (tls t))))
                     (FREE_INTERRUPT_CONTEXT_INDEX b) (store64 (make_fixnum b 1))\<rparr>, tp), rest)"
    unfolding read_thread_def Let_def f_def [symmetric] img append_assoc r1
    by (simp add: i10 tp_fields(1,2) stackptr_def [symmetric] r3 r4 r5 r6
          f3_def [symmetric] r7 r8 returnR_def)
  then show ?thesis by (simp only: res tp_def)
qed

subsection \<open>The scan never leaves the blocks\<close>

lemma in_envelope_offset:
  fixes w start size :: uword_t
  assumes "start \<le> w" and "w < start + size"
  shows "unat (w - start) < unat size"
proof -
  have 1: "unat (w - start) = unat w - unat start" using assms(1) by (simp add: unat_sub)
  have 2: "unat w < unat (start + size)" using assms(2) by (simp add: word_less_nat_alt)
  have 3: "unat (start + size) = (unat start + unat size) mod 2 ^ 64"
    by (simp add: unat_word_ariths)
  have 4: "unat start \<le> unat w" using assms(1) by (simp add: word_le_nat_alt)
  have 5: "unat start < 2 ^ 64" "unat size < 2 ^ 64"
    using unsigned_less [of start, where 'a = nat] unsigned_less [of size, where 'a = nat]
    by simp_all
  show ?thesis
  proof (cases "unat start + unat size < 2 ^ 64")
    case True
    then have "(unat start + unat size) mod 2 ^ 64 = unat start + unat size" by simp
    with 1 2 3 4 show ?thesis by simp
  next
    case False
    then have "(unat start + unat size) mod 2 ^ 64 = (unat start + unat size - 2 ^ 64) mod 2 ^ 64"
      by (simp add: le_mod_geq)
    also have "\<dots> = unat start + unat size - 2 ^ 64" using 5 by simp
    finally have "unat (start + size) < unat start" using 3 5 False by simp
    with 2 4 show ?thesis by simp
  qed
qed

lemma page_entry_exists:
  assumes "envelope_paged b rt"
    and "DYNAMIC_SPACE_START rt \<le> w" and "w < DYNAMIC_SPACE_START rt + dynamic_space_size rt"
  shows "\<exists>pte. page_table_entry b rt (find_page_index b rt w) = Some pte"
proof -
  from assms(1) have pg: "0 < GENCGC_PAGE_BYTES b" and pp: "0 \<le> sint (page_table_pages rt)"
    and sz: "unat (dynamic_space_size rt) \<le> unat (page_table_pages rt) * GENCGC_PAGE_BYTES b"
    and tb: "unat (page_table_pages rt) * sizeof_page b \<le> length (page_table rt)"
    by (simp_all add: envelope_paged_def)
  let ?k = "unat (w - DYNAMIC_SPACE_START rt) div GENCGC_PAGE_BYTES b"
  have "unat (w - DYNAMIC_SPACE_START rt) < unat (dynamic_space_size rt)"
    using assms(2,3) by (rule in_envelope_offset)
  then have "unat (w - DYNAMIC_SPACE_START rt) < unat (page_table_pages rt) * GENCGC_PAGE_BYTES b"
    using sz by simp
  then have k: "?k < unat (page_table_pages rt)"
    using pg by (simp add: less_mult_imp_div_less)
  have "int (unat (page_table_pages rt)) = sint (page_table_pages rt)"
    using pp by (rule sint_nonneg_unat)
  then have "int ?k < sint (page_table_pages rt)" using k by linarith
  then have idx: "find_page_index b rt w = int ?k"
    using assms(2) by (simp add: find_page_index_def Let_def)
  have "?k * sizeof_page b + sizeof_page b \<le> unat (page_table_pages rt) * sizeof_page b"
    using k by (metis Suc_leI mult_Suc mult_le_mono1 add.commute)
  then have "?k * sizeof_page b + sizeof_page b \<le> length (page_table rt)" using tb by simp
  then show ?thesis by (simp add: idx page_table_entry_def peek_def)
qed

lemma could_be_pointer_total:
  assumes "envelope_paged b rt"
  shows "\<exists>c. could_be_pointer b rt w = Inr c"
proof (cases "DYNAMIC_SPACE_START rt \<le> w \<and> w < DYNAMIC_SPACE_START rt + dynamic_space_size rt")
  case False
  then show ?thesis by (auto simp: could_be_pointer_def)
next
  case True
  then have "\<exists>pte. page_table_entry b rt (find_page_index b rt w) = Some pte"
    using page_entry_exists [OF assms] by blast
  then show ?thesis using True by (auto simp: could_be_pointer_def)
qed

lemma scan_word_total:
  assumes "envelope_paged b rt" and "at + N_WORD_BYTES \<le> length stack"
  shows "\<exists>c. scan_word b p rt stack at counters = Inr c"
proof -
  from assms(2) obtain bs where bs: "peek stack at N_WORD_BYTES = Some bs"
    by (simp add: peek_def)
  from could_be_pointer_total [OF assms(1)] obtain c
    where c: "could_be_pointer b rt (load64 bs) = Inr c" by blast
  show ?thesis
    by (cases "search_dynamic_space p rt (load64 bs)") (simp_all add: scan_word_def bs c)
qed

lemma scan_stack_total:
  assumes "envelope_paged b rt"
    and "stackptr + (wordindex + n) * N_WORD_BYTES \<le> length stack"
  shows "\<exists>c. scan_stack b p rt stack stackptr n wordindex counters = Inr c"
  using assms(2)
proof (induction n arbitrary: wordindex counters)
  case 0
  show ?case by simp
next
  case (Suc n)
  from Suc.prems have "stackptr + wordindex * N_WORD_BYTES + N_WORD_BYTES \<le> length stack"
    by (simp add: algebra_simps)
  from scan_word_total [OF assms(1) this] obtain c
    where c: "scan_word b p rt stack (stackptr + wordindex * N_WORD_BYTES) counters = Inr c"
    by blast
  from Suc.prems have "stackptr + (Suc wordindex + n) * N_WORD_BYTES \<le> length stack" by simp
  from Suc.IH [OF this] show ?case by (simp add: c)
qed

lemma sint_int_of_long:
  assumes "unat (w :: uword_t) < 2 ^ 31"
  shows "sint (int_of_long w) = int (unat w)"
proof -
  have "sint (long_of_int (int_of_long w)) = sint w"
    using assms by (simp only: long_of_int_of_long)
  then show ?thesis using small_sint [OF assms] by simp
qed

lemma nwords_small:
  assumes "unat (n :: uword_t) < 2 ^ 31"
  shows "nat (sint (int_of_long (drop_bit WORD_SHIFT n))) = unat n div 8"
proof -
  have d: "unat (drop_bit WORD_SHIFT n) = unat n div 8"
    by (simp add: unat_drop_bit_eq drop_bit_eq_div WORD_SHIFT_def unat_div_distrib)
  then have "unat (drop_bit WORD_SHIFT n) < 2 ^ 31"
    using assms by (simp add: div_le_dividend le_less_trans)
  from sint_int_of_long [OF this] d show ?thesis by simp
qed

lemma scan_thread_total:
  assumes ep: "envelope_paged b rt"
    and n: "unat (control_stack_nbytes tp) < 2 ^ 31"
           "unat (control_stack_nbytes tp) \<le> length (control_stack t)"
  shows "\<exists>c. scan_thread b p rt t tp = Inr c"
proof -
  let ?n = "control_stack_nbytes tp"
  have off: "stack_offset t (control_stack_end t - ?n) = length (control_stack t) - unat ?n"
    using n(2) by (rule stack_offset_below)
  have "unat ?n div 8 * 8 \<le> unat ?n" by simp
  then have "stack_offset t (control_stack_end t - ?n) + (0 + unat ?n div 8) * N_WORD_BYTES
               \<le> length (control_stack t)"
    using n(2) by (simp add: off N_WORD_BYTES_def)
  from scan_stack_total [OF ep this] show ?thesis
    by (simp add: scan_thread_def Let_def nwords_small [OF n(1)])
qed

subsection \<open>Reading back the image of a capture\<close>

lemma thread_preamble_of_image:
  assumes "thread_ici b t = Inr ici" and "thread_sp b self sp0 ici t = Inr sp"
  shows "thread_preamble_of (take 32 (thread_image b self sp0 pre t)) = save_thread_preamble ici sp t"
  using assms by (simp add: thread_image_def)

lemma restored_thread_stack:
  assumes ok: "thread_ok b self sp0 pre t" and rs: "thread_restorable b p self sp0 pre i t"
  shows "control_stack_end (restored_thread b p self sp0 pre i t)
           = control_stack_end (alloc_thread_struct p i)"
    and "length (control_stack (restored_thread b p self sp0 pre i t))
           = length (control_stack (alloc_thread_struct p i))"
proof -
  from ok obtain ici where ici: "thread_ici b t = Inr ici"
    by (cases "thread_ici b t") (simp_all add: thread_ok_def)
  from ok ici obtain sp where sp: "thread_sp b self sp0 ici t = Inr sp"
    by (cases "thread_sp b self sp0 ici t") (simp_all add: thread_ok_def)
  let ?f = "alloc_thread_struct p i"
  let ?n = "control_stack_end t - sp"
  from ok ici sp have cs: "unat ?n \<le> length (control_stack t)" by (simp add: thread_ok_def)
  from rs ici sp have fcs: "unat ?n \<le> length (control_stack ?f)"
    by (simp add: thread_restorable_def)
  have "stack_offset t sp + unat ?n \<le> length (control_stack t)"
    using cs by (simp add: stack_offset_def Let_def)
  then have live: "length (take (unat ?n) (drop (stack_offset t sp) (control_stack t))) = unat ?n"
    by simp
  show "control_stack_end (restored_thread b p self sp0 pre i t) = control_stack_end ?f"
    by (simp add: restored_thread_def ici sp Let_def)
  show "length (control_stack (restored_thread b p self sp0 pre i t)) = length (control_stack ?f)"
    using fcs live
    by (simp add: restored_thread_def ici sp Let_def stack_offset_below del: length_take)
qed

lemma load_thread_image:
  assumes ok: "thread_ok b self sp0 pre t" and rs: "thread_restorable b p self sp0 pre i t"
    and ep: "envelope_paged b r"
    and nm: "thread_name b p r (restored_thread b p self sp0 pre i t) = Inr ()"
  shows "load_thread b p pre r i (thread_image b self sp0 pre t @ rest) =
           Inr ((restored_thread b p self sp0 pre i t,
                 report_of (scan_thread b p r (restored_thread b p self sp0 pre i t)
                   (thread_preamble_of (take 32 (thread_image b self sp0 pre t))))), rest)"
proof -
  from ok obtain ici where ici: "thread_ici b t = Inr ici"
    by (cases "thread_ici b t") (simp_all add: thread_ok_def)
  from ok ici obtain sp where sp: "thread_sp b self sp0 ici t = Inr sp"
    by (cases "thread_sp b self sp0 ici t") (simp_all add: thread_ok_def)
  let ?t' = "restored_thread b p self sp0 pre i t"
  let ?tp = "save_thread_preamble ici sp t"
  from ok ici sp have cs: "unat (control_stack_end t - sp) < 2 ^ 31"
    and bs: "unat (binding_stack_pointer t - binding_stack_start t) < 2 ^ 31"
    by (simp_all add: thread_ok_def)
  from rs ici sp have fcs:
    "unat (control_stack_end t - sp) \<le> length (control_stack (alloc_thread_struct p i))"
    by (simp add: thread_restorable_def)
  have nb: "control_stack_nbytes ?tp = control_stack_end t - sp"
    using save_thread_preamble_small [OF cs bs] by simp
  have "\<exists>c. scan_thread b p r ?t' ?tp = Inr c"
  proof (rule scan_thread_total [OF ep])
    show "unat (control_stack_nbytes ?tp) < 2 ^ 31" using cs by (simp only: nb)
    show "unat (control_stack_nbytes ?tp) \<le> length (control_stack ?t')"
      using fcs by (simp only: nb restored_thread_stack [OF ok rs])
  qed
  then obtain c where c: "scan_thread b p r ?t' ?tp = Inr c" by blast
  show ?thesis
    using read_thread_image [OF ok rs ici sp, of rest]
    by (simp add: load_thread_def bindR_def thread_preamble_of_image [OF ici sp] c nm liftR_def
          returnR_def report_of_def)
qed

lemma load_threads_image:
  assumes "list_all (thread_ok b self sp0 pre) ts"
    and "threads_restorable b p self sp0 pre r i ts" and "envelope_paged b r"
  shows "load_threads b p pre r (length ts) i acc
           (concat (map (thread_image b self sp0 pre) ts) @ rest) =
         Inr (restored_threads b p self sp0 pre r i ts acc, rest)"
  using assms(1,2)
proof (induction ts arbitrary: i acc)
  case Nil
  show ?case by (simp add: returnR_def)
next
  case (Cons t ts)
  from Cons.prems have ok: "thread_ok b self sp0 pre t" and oks: "list_all (thread_ok b self sp0 pre) ts"
    and rs: "thread_restorable b p self sp0 pre i t"
    and nm: "thread_name b p r (restored_thread b p self sp0 pre i t) = Inr ()"
    and rss: "threads_restorable b p self sp0 pre r (Suc i) ts"
    by simp_all
  show ?case
    using load_thread_image [OF ok rs assms(3) nm] Cons.IH [OF oks rss]
    by (simp add: bindR_def)
qed

lemma threads_restorable_length:
  "threads_restorable b p self sp0 pre r i ts \<Longrightarrow> length ts \<le> 10 - i"
proof (induction ts arbitrary: i)
  case Nil
  then show ?case by simp
next
  case (Cons t ts)
  from Cons.prems have "i < 10" and "threads_restorable b p self sp0 pre r (Suc i) ts"
    by (simp_all add: thread_restorable_def split: sum.splits)
  with Cons.IH [of "Suc i"] show ?case by simp
qed

lemma load_trailer_SB_Crash: "load_trailer (SB_Crash @ rest) = Inr ((), rest)"
proof -
  have "checked_read 8 (SB_Crash @ rest) = Inr (SB_Crash, rest)"
    by (rule checked_read_append) (simp_all add: SB_Crash_def)
  then show ?thesis by (simp add: load_trailer_def bindR_def gc_assert_def returnR_def)
qed

lemma load_body_image:
  assumes ok: "capture_ok b rt self sp0" and rs: "restorable b p rt self sp0"
  shows "load_body b p (crash_image b rt self sp0 @ rest) =
           Inr (restored b p rt self sp0, SB_Crash @ rest)"
proof -
  let ?ts = "all_threads rt"
  from ok have h: "heap_ok b rt" and im: "immobile_ok b rt"
    and th: "list_all (thread_ok b self sp0 (save_preamble b rt)) ?ts"
    by (simp_all add: capture_ok_def)
  from rs have hr: "heap_restorable b p rt" and ir: "immobile_restorable b p rt"
    and tr: "threads_restorable b p self sp0 (save_preamble b rt) (restored_regions b p rt) 0 ?ts"
    and ep: "envelope_paged b (restored_regions b p rt)"
    by (simp_all add: restorable_def)
  from threads_restorable_length [OF tr] have "length ?ts < 2 ^ 31" by simp
  then have "sint (of_nat (length ?ts) :: c_int) = int (length ?ts)" by (rule sint_of_nat_int)
  then have n: "nat (sint (nthreads (save_preamble b rt))) = length ?ts"
    by (simp add: save_preamble_def)
  show ?thesis
    using load_heap_image [OF h hr] load_immobile_image [OF im ir]
      load_threads_image [OF th tr ep]
    by (simp add: load_body_def crash_image_def bindR_def n restored_regions_def [symmetric]
          returnR_def restored_def Let_def)
qed

lemma load_crash_image:
  assumes ok: "capture_ok b rt self sp0" and rs: "restorable b p rt self sp0"
  shows "load_gc_crashdump b p (crash_image b rt self sp0) = Inr (restored b p rt self sp0)"
proof -
  have "load_all b p (crash_image b rt self sp0 @ []) = Inr (restored b p rt self sp0, [])"
    unfolding load_all_def
    using load_body_image [OF ok rs, of "[]"] load_trailer_SB_Crash [of "[]"]
    by (simp add: bindR_def returnR_def)
  then show ?thesis by (simp add: load_gc_crashdump_def sys_read_def)
qed

subsection \<open>The small heap is captured and read back\<close>

lemma capture_ok0: "capture_ok build0 heap0 0x6000 0x4FF8"
  by (simp add: capture_ok_def heap_ok_def immobile_ok_def thread_ok_def eval_defs)

lemma heap_restorable0: "heap_restorable build0 process0 heap0"
  by (simp add: heap_restorable_def process0_def build0_def heap0_def)

lemma immobile_restorable0: "immobile_restorable build0 process0 heap0"
  by (simp add: immobile_restorable_def process0_def eval_defs)

lemma thread_restorable0:
  "thread_restorable build0 process0 0x6000 0x4FF8 (save_preamble build0 heap0) 0 thread0"
  by (simp add: thread_restorable_def process0_def fresh_thread_def eval_defs)

lemma thread_restorable1:
  "thread_restorable build0 process0 0x6000 0x4FF8 (save_preamble build0 heap0) (Suc 0) thread1"
  by (simp add: thread_restorable_def process0_def fresh_thread_def eval_defs)

lemma envelope_paged0: "envelope_paged build0 (restored_regions build0 process0 heap0)"
  by (simp add: envelope_paged_def restored_regions_def restored_immobile_def restored_heap_def
       overlay_def process0_def build0_def heap0_def)

lemma restored_thread0:
  "restored_thread build0 process0 0x6000 0x4FF8 (save_preamble build0 heap0) 0 thread0 =
     \<lparr> th = 0x17000, control_stack_end = 0x18000,
       control_stack = [0, 0, 0, 0, 0, 0, 0, 0, 1, 0x20, 0, 0, 0, 0, 0, 0],
       binding_stack_start = 0x30000, binding_stack_pointer = 0x30000,
       binding_stack = [0, 0, 0, 0, 0, 0, 0, 0, 0, 0, 0, 0, 0, 0, 0, 0],
       tls = [0xEE, 0xEE, 0xEE, 0xEE, 0xEE, 0xEE, 0xEE, 0xEE, 6, 6, 6, 6, 6, 6, 6, 6,
              2, 0, 0, 0, 0, 0, 0, 0, 7, 7, 7, 7, 7, 7, 7, 7],
       interrupt_context = [0, 0, 0, 0, 0, 0, 0, 0, 0xF8, 0x7F, 1, 0, 0, 0, 0, 0] \<rparr>"
  by (simp add: restored_thread_def process0_def fresh_thread_def put_def overlay_def eval_defs
       Let_def le_bytes_numeral replicate_numeral)

lemma restored_thread1:
  "restored_thread build0 process0 0x6000 0x4FF8 (save_preamble build0 heap0) (Suc 0) thread1 =
     \<lparr> th = 0x18000, control_stack_end = 0x19000,
       control_stack = [0, 0, 0, 0, 0, 0, 0, 0, 0x0F, 0x20, 0, 0, 0, 0, 0, 0],
       binding_stack_start = 0x30000, binding_stack_pointer = 0x30000,
       binding_stack = [9, 9, 9, 9, 9, 9, 9, 9, 0, 0, 0, 0, 0, 0, 0, 0],
       tls = [0xEE, 0xEE, 0xEE, 0xEE, 0xEE, 0xEE, 0xEE, 0xEE, 2, 2, 2, 2, 2, 2, 2, 2,
              2, 0, 0, 0, 0, 0, 0, 0, 5, 5, 5, 5, 5, 5, 5, 5],
       interrupt_context = [3, 3, 3, 3, 3, 3, 3, 3, 0xF8, 0x8F, 1, 0, 0, 0, 0, 0] \<rparr>"
  by (simp add: restored_thread_def process0_def fresh_thread_def put_def overlay_def eval_defs
       Let_def le_bytes_numeral replicate_numeral)

lemma restorable0: "restorable build0 process0 heap0 0x6000 0x4FF8"
proof -
  have n0: "thread_name build0 process0 (restored_regions build0 process0 heap0)
      (restored_thread build0 process0 0x6000 0x4FF8 (save_preamble build0 heap0) 0 thread0) = Inr ()"
    by (simp only: restored_thread0)
       (simp add: thread_name_def read_TLS_def peek_def load64_def process0_def build0_def
          N_WORD_BYTES_def)
  have n1: "thread_name build0 process0 (restored_regions build0 process0 heap0)
      (restored_thread build0 process0 0x6000 0x4FF8 (save_preamble build0 heap0) (Suc 0) thread1)
        = Inr ()"
    by (simp only: restored_thread1)
       (simp add: thread_name_def read_TLS_def peek_def load64_def process0_def build0_def
          N_WORD_BYTES_def)
  have ts: "all_threads heap0 = [thread0, thread1]" by (simp add: heap0_def)
  show ?thesis
    unfolding restorable_def
    using heap_restorable0 immobile_restorable0 thread_restorable0 thread_restorable1
      envelope_paged0 n0 n1
    by (simp add: ts)
qed

lemma load_image0:
  "load_gc_crashdump build0 process0 image0 = Inr (restored build0 process0 heap0 0x6000 0x4FF8)"
  unfolding image0_def using capture_ok0 restorable0 by (rule load_crash_image)

subsection \<open>The trailer\<close>

lemma sys_read_one: "fst (sys_read rest 1) = 0 \<longleftrightarrow> rest = []"
  by (cases rest) (simp_all add: sys_read_def)

lemma load_gc_crashdump_Inr:
  "load_gc_crashdump b p fd = Inr r \<longleftrightarrow> load_all b p fd = Inr (r, [])"
proof (cases "load_all b p fd")
  case (Inl e)
  then show ?thesis by (simp add: load_gc_crashdump_def)
next
  case (Inr x)
  obtain r' rest where x: "x = (r', rest)" by (cases x)
  show ?thesis
  proof (cases "rest = []")
    case True
    with Inr x show ?thesis by (simp add: load_gc_crashdump_def sys_read_one)
  next
    case False
    with Inr x show ?thesis by (simp add: load_gc_crashdump_def sys_read_one)
  qed
qed

lemma load_all_Inr:
  "load_all b p fd = Inr (r, rest) \<longleftrightarrow>
     (\<exists>fd1. load_body b p fd = Inr (r, fd1) \<and> load_trailer fd1 = Inr ((), rest))"
  by (cases r) (auto simp add: load_all_def bindR_Inr_iff returnR_def)

lemma load_trailer_Inr:
  "load_trailer fd = Inr ((), rest) \<longleftrightarrow> fd = SB_Crash @ rest"
proof
  assume "load_trailer fd = Inr ((), rest)"
  then obtain sig where r: "checked_read 8 fd = Inr (sig, rest)" and s: "sig = SB_Crash"
    by (auto simp add: load_trailer_def bindR_Inr_iff gc_assert_def returnR_def loseR_def
          split: if_splits)
  from checked_read_Inr [OF r] s show "fd = SB_Crash @ rest" by simp
next
  assume "fd = SB_Crash @ rest"
  then show "load_trailer fd = Inr ((), rest)" by (simp add: load_trailer_SB_Crash)
qed

lemma load_trailer_other:
  assumes "length sig = 8" and "sig \<noteq> SB_Crash"
  shows "load_trailer (sig @ extra) = Inl GC_invariant_lost"
proof -
  have "checked_read 8 (sig @ extra) = Inr (sig, extra)"
    by (rule checked_read_append) (simp_all add: assms(1))
  then show ?thesis
    using assms(2) by (simp add: load_trailer_def bindR_def gc_assert_def loseR_def)
qed

text \<open>
  C4.  When \<open>load_gc_crashdump\<close> accepts an image, the image is what the reader consumes
  up to the last thread record, followed by the 8 bytes \<open>SB.Crash\<close> and nothing else.
  With any other 8 bytes in the place of the trailer, whatever follows them, a
  \<open>gc_assert\<close> fails; cut short at any length, the image makes a \<open>checked_read\<close> fail;
  and with any bytes appended, it makes the last \<open>gc_assert\<close> fail.
\<close>

theorem trailer_validation:
  assumes "load_gc_crashdump b p img = Inr r"
  shows "(\<exists>body. img = body @ SB_Crash \<and>
            (\<forall>rest. load_body b p (body @ rest) = Inr (r, rest)) \<and>
            (\<forall>sig extra. length sig = 8 \<longrightarrow> sig \<noteq> SB_Crash \<longrightarrow>
               load_gc_crashdump b p (body @ sig @ extra) = Inl GC_invariant_lost)) \<and>
         (\<forall>k<length img. load_gc_crashdump b p (take k img) = Inl Read_failed) \<and>
         (\<forall>extra. extra \<noteq> [] \<longrightarrow>
            load_gc_crashdump b p (img @ extra) = Inl GC_invariant_lost)"
proof (intro conjI)
  from assms have all: "load_all b p img = Inr (r, [])"
    by (simp only: load_gc_crashdump_Inr)
  then obtain fd1 where body: "load_body b p img = Inr (r, fd1)"
    and tr: "load_trailer fd1 = Inr ((), [])"
    by (auto simp add: load_all_Inr)
  from tr have fd1: "fd1 = SB_Crash" by (simp add: load_trailer_Inr)
  from local_readerD [OF local_load_body body] obtain used where
    used: "img = used @ fd1" and ext: "\<forall>ys. load_body b p (used @ ys) = Inr (r, ys)"
    by blast
  have "load_gc_crashdump b p (used @ sig @ extra) = Inl GC_invariant_lost"
    if "length sig = 8" and "sig \<noteq> SB_Crash" for sig extra
  proof -
    from ext have "load_body b p (used @ sig @ extra) = Inr (r, sig @ extra)" by blast
    then have "load_all b p (used @ sig @ extra) = Inl GC_invariant_lost"
      by (simp add: load_all_def bindR_def load_trailer_other [OF that])
    then show ?thesis by (simp add: load_gc_crashdump_def)
  qed
  with used fd1 ext
  show "\<exists>body. img = body @ SB_Crash \<and>
          (\<forall>rest. load_body b p (body @ rest) = Inr (r, rest)) \<and>
          (\<forall>sig extra. length sig = 8 \<longrightarrow> sig \<noteq> SB_Crash \<longrightarrow>
             load_gc_crashdump b p (body @ sig @ extra) = Inl GC_invariant_lost)"
    by blast
  from local_readerD [OF local_load_all all] obtain u where
    u: "img = u @ []" and uext: "\<forall>ys. load_all b p (u @ ys) = Inr (r, ys)"
    and cut: "\<forall>k<length u. load_all b p (take k u) = Inl Read_failed"
    by blast
  from u have iu: "u = img" by simp
  show "\<forall>k<length img. load_gc_crashdump b p (take k img) = Inl Read_failed"
    using cut by (simp add: iu load_gc_crashdump_def)
  show "\<forall>extra. extra \<noteq> [] \<longrightarrow>
          load_gc_crashdump b p (img @ extra) = Inl GC_invariant_lost"
  proof (intro allI impI)
    fix extra :: "byte list"
    assume ne: "extra \<noteq> []"
    from uext have "load_all b p (img @ extra) = Inr (r, extra)" by (simp add: iu)
    moreover have "fst (sys_read extra 1) \<noteq> 0"
      using ne by (simp only: sys_read_one) simp
    ultimately show "load_gc_crashdump b p (img @ extra) = Inl GC_invariant_lost"
      by (simp add: load_gc_crashdump_def)
  qed
qed

lemma length_image0: "length image0 = 348"
  by (simp add: image0_def crash_image_def heap_image_def immobile_image_def thread_image_def
       eval_defs)

theorem trailer_validation_witness:
  "load_gc_crashdump build0 process0 image0 = Inr (restored build0 process0 heap0 0x6000 0x4FF8) \<and>
   length image0 = 348 \<and>
   drop 340 image0 = [0x53, 0x42, 0x2E, 0x43, 0x72, 0x61, 0x73, 0x68] \<and>
   load_gc_crashdump build0 process0
     (take 340 image0 @ [0x53, 0x42, 0x2E, 0x43, 0x72, 0x61, 0x73, 0x48]) = Inl GC_invariant_lost \<and>
   load_gc_crashdump build0 process0 (take 347 image0) = Inl Read_failed \<and>
   load_gc_crashdump build0 process0 (take 340 image0) = Inl Read_failed \<and>
   load_gc_crashdump build0 process0 (take 100 image0) = Inl Read_failed \<and>
   load_gc_crashdump build0 process0 (image0 @ [0]) = Inl GC_invariant_lost"
proof -
  note t = trailer_validation [OF load_image0]
  note t1 = t [THEN conjunct1] and t2 = t [THEN conjunct2, THEN conjunct1]
    and t3 = t [THEN conjunct2, THEN conjunct2]
  from t1 obtain body where bd: "image0 = body @ SB_Crash \<and>
      (\<forall>rest. load_body build0 process0 (body @ rest)
         = Inr (restored build0 process0 heap0 0x6000 0x4FF8, rest)) \<and>
      (\<forall>sig extra. length sig = 8 \<longrightarrow> sig \<noteq> SB_Crash \<longrightarrow>
         load_gc_crashdump build0 process0 (body @ sig @ extra) = Inl GC_invariant_lost)" ..
  note b = bd [THEN conjunct1] and o = bd [THEN conjunct2, THEN conjunct2]
  from arg_cong [OF b, of length] length_image0 have lb: "length body = 340"
    by (simp add: SB_Crash_def)
  from arg_cong [OF b, of "take 340"] lb have tk: "take 340 image0 = body" by simp
  from arg_cong [OF b, of "drop 340"] lb
  have dr: "drop 340 image0 = [0x53, 0x42, 0x2E, 0x43, 0x72, 0x61, 0x73, 0x68]"
    by (simp add: SB_Crash_def)
  have "length [0x53, 0x42, 0x2E, 0x43, 0x72, 0x61, 0x73, 0x48 :: byte] = 8"
    and "[0x53, 0x42, 0x2E, 0x43, 0x72, 0x61, 0x73, 0x48] \<noteq> SB_Crash"
    by (simp_all add: SB_Crash_def)
  from o [rule_format, OF this, of "[]"]
  have other: "load_gc_crashdump build0 process0
      (take 340 image0 @ [0x53, 0x42, 0x2E, 0x43, 0x72, 0x61, 0x73, 0x48]) = Inl GC_invariant_lost"
    by (simp only: tk append_Nil2)
  have cut: "load_gc_crashdump build0 process0 (take k image0) = Inl Read_failed"
    if "k < 348" for k
    using t2 [rule_format, of k] that by (simp only: length_image0)
  have ext: "load_gc_crashdump build0 process0 (image0 @ [0]) = Inl GC_invariant_lost"
    by (rule t3 [rule_format]) simp
  have "(347 :: nat) < 348" and "(340 :: nat) < 348" and "(100 :: nat) < 348" by simp_all
  note cuts = this [THEN cut]
  from load_image0 length_image0 dr other cuts ext show ?thesis by (intro conjI)
qed

subsection \<open>The thread-local block\<close>

lemma read_into_Inr:
  assumes "read_into n mem off fd = Inr (m, rest)"
  shows "\<exists>buf. checked_read n fd = Inr (buf, rest) \<and> off + length buf \<le> length mem \<and>
           m = take off mem @ buf @ drop (off + length buf) mem"
proof -
  from assms obtain buf fd' where r: "checked_read n fd = Inr (buf, fd')"
    and i: "in_bounds (poke mem off buf) fd' = Inr (m, rest)"
    by (auto simp add: read_into_def bindR_Inr_iff)
  show ?thesis
  proof (cases "off + length buf \<le> length mem")
    case True
    with i r show ?thesis by (simp add: in_bounds_def poke_def returnR_def)
  next
    case False
    with i show ?thesis by (simp add: in_bounds_def poke_def loseR_def)
  qed
qed

text \<open>
  C9.  When the thread-local block of a thread is read (lines 962 to 967) into a thread
  structure \<open>t\<close>, the bytes consumed are one block \<open>dumped\<close>; the block \<open>tls\<close> of the
  result keeps its first \<open>sizeof (struct thread) - N_WORD_BYTES\<close> bytes, has the bytes of
  \<open>dumped\<close> from that offset on in the same place, and keeps what lies beyond the length
  of \<open>dumped\<close>; nothing else of the thread structure changes.  \<open>dumped\<close> has
  \<open>tls_size\<close> bytes when that is not less than the header.
\<close>

theorem tls_header_kept:
  assumes "load_tls b pre t fd = Inr (t', rest)"
    and "N_WORD_BYTES \<le> sizeof_thread b" and "sizeof_thread b < 2 ^ 31"
  shows "\<exists>dumped. fd = dumped @ rest \<and>
           sizeof_thread b - N_WORD_BYTES \<le> length dumped \<and>
           length dumped \<le> length (tls t) \<and>
           (int (sizeof_thread b - N_WORD_BYTES) \<le> sint (tls_size pre) \<longrightarrow>
              length dumped = nat (sint (tls_size pre))) \<and>
           t' = t\<lparr>tls := take (sizeof_thread b - N_WORD_BYTES) (tls t) @
                           drop (sizeof_thread b - N_WORD_BYTES) dumped @
                           drop (length dumped) (tls t)\<rparr>"
proof -
  let ?skip = "sizeof_thread b - N_WORD_BYTES"
  define s :: c_int where "s = of_nat (sizeof_thread b) - of_nat N_WORD_BYTES"
  have s_eq: "s = of_nat ?skip" using assms(2) by (simp add: s_def)
  have "?skip < 2 ^ 31" using assms(3) by simp
  then have s_sint: "sint s = int ?skip" unfolding s_eq by (rule sint_of_nat_int)
  then have s_unat: "unat (long_of_int s) = ?skip"
    using unat_long_of_int [of s] by simp
  have s0: "\<not> sint (long_of_int s) < 0" using s_sint by simp
  from assms(1) obtain dummy fd1 m where
    r1: "checked_read (long_of_int s) fd = Inr (dummy, fd1)"
    and r2: "read_into (long_of_int (tls_size pre - s)) (tls t) ?skip fd1 = Inr (m, rest)"
    and t': "t' = t\<lparr>tls := m\<rparr>"
    unfolding load_tls_def Let_def s_def [symmetric]
    by (auto simp add: bindR_Inr_iff returnR_def)
  from read_into_Inr [OF r2] obtain buf where
    r3: "checked_read (long_of_int (tls_size pre - s)) fd1 = Inr (buf, rest)"
    and fit: "?skip + length buf \<le> length (tls t)"
    and m: "m = take ?skip (tls t) @ buf @ drop (?skip + length buf) (tls t)"
    by blast
  from checked_read_Inr [OF r1] s0 s_unat
  have fd: "fd = dummy @ fd1" and ld: "length dummy = ?skip" by simp_all
  from checked_read_Inr [OF r3]
  have fd1: "fd1 = buf @ rest"
    and lb: "sint (long_of_int (tls_size pre - s)) < 0 \<and> buf = [] \<or>
             0 \<le> sint (long_of_int (tls_size pre - s)) \<and>
             length buf = unat (long_of_int (tls_size pre - s))"
    by simp_all
  have full: "length (dummy @ buf) = nat (sint (tls_size pre))"
    if le: "int ?skip \<le> sint (tls_size pre)"
  proof -
    from le s_sint have le': "sint s \<le> sint (tls_size pre)" by simp
    have d: "sint (tls_size pre - s) = sint (tls_size pre) - sint s"
      using _ le' by (rule sint_diff_int) (simp add: s_sint)
    then have d0: "0 \<le> sint (tls_size pre - s)" using le' by simp
    with lb have "length buf = unat (long_of_int (tls_size pre - s))" by simp
    also have "\<dots> = nat (sint (tls_size pre - s))" using d0 by (rule unat_long_of_int)
    also have "\<dots> = nat (sint (tls_size pre)) - ?skip"
      by (simp only: d s_sint)
    finally show ?thesis using le ld by simp
  qed
  have "fd = (dummy @ buf) @ rest" using fd fd1 by simp
  moreover have "?skip \<le> length (dummy @ buf)" using ld by simp
  moreover have "length (dummy @ buf) \<le> length (tls t)" using ld fit by simp
  moreover have "t' = t\<lparr>tls := take ?skip (tls t) @ drop ?skip (dummy @ buf) @
                               drop (length (dummy @ buf)) (tls t)\<rparr>"
    using t' m ld by simp
  ultimately show ?thesis using full by (intro exI [of _ "dummy @ buf"] conjI impI)
qed

theorem tls_header_kept_witness:
  "load_tls build0 (save_preamble build0 heap0) (fresh_thread 0)
     ([4, 4, 4, 4, 4, 4, 4, 4, 6, 6, 6, 6, 6, 6, 6, 6,
       0, 0, 0, 0, 0, 0, 0, 0, 7, 7, 7, 7, 7, 7, 7, 7] @ [0x53, 0x42]) =
     Inr (fresh_thread 0
            \<lparr>tls := [0xEE, 0xEE, 0xEE, 0xEE, 0xEE, 0xEE, 0xEE, 0xEE, 6, 6, 6, 6, 6, 6, 6, 6,
                     0, 0, 0, 0, 0, 0, 0, 0, 7, 7, 7, 7, 7, 7, 7, 7]\<rparr>, [0x53, 0x42]) \<and>
   N_WORD_BYTES \<le> sizeof_thread build0 \<and> sizeof_thread build0 < 2 ^ 31 \<and>
   sizeof_thread build0 - N_WORD_BYTES = 8 \<and>
   sint (tls_size (save_preamble build0 heap0)) = 32 \<and>
   (\<exists>dumped.
      [4, 4, 4, 4, 4, 4, 4, 4, 6, 6, 6, 6, 6, 6, 6, 6,
       0, 0, 0, 0, 0, 0, 0, 0, 7, 7, 7, 7, 7, 7, 7, 7] @ [0x53, 0x42] = dumped @ [0x53, 0x42] \<and>
      length dumped = 32 \<and>
      fresh_thread 0
        \<lparr>tls := [0xEE, 0xEE, 0xEE, 0xEE, 0xEE, 0xEE, 0xEE, 0xEE, 6, 6, 6, 6, 6, 6, 6, 6,
                 0, 0, 0, 0, 0, 0, 0, 0, 7, 7, 7, 7, 7, 7, 7, 7]\<rparr> =
      fresh_thread 0
        \<lparr>tls := take 8 (tls (fresh_thread 0)) @ drop 8 dumped @
                 drop (length dumped) (tls (fresh_thread 0))\<rparr>)"
proof -
  let ?block = "[4, 4, 4, 4, 4, 4, 4, 4, 6, 6, 6, 6, 6, 6, 6, 6,
                 0, 0, 0, 0, 0, 0, 0, 0, 7, 7, 7, 7, 7, 7, 7, 7] :: byte list"
  let ?t' = "fresh_thread 0
        \<lparr>tls := [0xEE, 0xEE, 0xEE, 0xEE, 0xEE, 0xEE, 0xEE, 0xEE, 6, 6, 6, 6, 6, 6, 6, 6,
                 0, 0, 0, 0, 0, 0, 0, 0, 7, 7, 7, 7, 7, 7, 7, 7]\<rparr>"
  have pre: "tls_size (save_preamble build0 heap0) = 32"
    by (simp add: eval_defs)
  have c: "chunk (long_of_int 32) ?block = ?block"
    by (simp add: chunk_def long_of_int_def)
  have h2: "N_WORD_BYTES \<le> sizeof_thread build0" and h3: "sizeof_thread build0 < 2 ^ 31"
    and h4: "sizeof_thread build0 - N_WORD_BYTES = 8"
    by (simp_all add: build0_def N_WORD_BYTES_def)
  have p1: "fits (long_of_int (tls_size (save_preamble build0 heap0))) ?block"
    by (simp only: pre) (simp add: fits_def long_of_int_def)
  have p4: "sizeof_thread build0 - N_WORD_BYTES
              \<le> unat (long_of_int (tls_size (save_preamble build0 heap0)))"
    by (simp only: pre h4) (simp add: long_of_int_def)
  have p5: "unat (long_of_int (tls_size (save_preamble build0 heap0)))
              \<le> length (tls (fresh_thread 0))"
    by (simp only: pre) (simp add: long_of_int_def fresh_thread_def)
  from load_tls_image [OF p1 h2 h3 p4 p5, of "[0x53, 0x42]"]
  have h1: "load_tls build0 (save_preamble build0 heap0) (fresh_thread 0)
      (?block @ [0x53, 0x42]) = Inr (?t', [0x53, 0x42])"
    by (simp only: pre c h4)
       (simp add: put_def fresh_thread_def replicate_numeral)
  have h5: "sint (tls_size (save_preamble build0 heap0)) = 32" by (simp add: pre)
  from tls_header_kept [OF h1 h2 h3] obtain dumped where d:
    "?block @ [0x53, 0x42] = dumped @ [0x53, 0x42] \<and>
     sizeof_thread build0 - N_WORD_BYTES \<le> length dumped \<and>
     length dumped \<le> length (tls (fresh_thread 0)) \<and>
     (int (sizeof_thread build0 - N_WORD_BYTES) \<le> sint (tls_size (save_preamble build0 heap0))
        \<longrightarrow> length dumped = nat (sint (tls_size (save_preamble build0 heap0)))) \<and>
     ?t' = fresh_thread 0
        \<lparr>tls := take (sizeof_thread build0 - N_WORD_BYTES) (tls (fresh_thread 0)) @
                 drop (sizeof_thread build0 - N_WORD_BYTES) dumped @
                 drop (length dumped) (tls (fresh_thread 0))\<rparr>" ..
  note d1 = d [THEN conjunct1]
    and d4 = d [THEN conjunct2, THEN conjunct2, THEN conjunct2, THEN conjunct1]
    and d5 = d [THEN conjunct2, THEN conjunct2, THEN conjunct2, THEN conjunct2]
  from d4 have len: "length dumped = 32" by (simp add: h4 h5)
  from d5 have eq: "?t' = fresh_thread 0
        \<lparr>tls := take 8 (tls (fresh_thread 0)) @ drop 8 dumped @
                 drop (length dumped) (tls (fresh_thread 0))\<rparr>"
    by (simp only: h4)
  from d1 len eq have "\<exists>dumped. ?block @ [0x53, 0x42] = dumped @ [0x53, 0x42] \<and>
      length dumped = 32 \<and>
      ?t' = fresh_thread 0
        \<lparr>tls := take 8 (tls (fresh_thread 0)) @ drop 8 dumped @
                 drop (length dumped) (tls (fresh_thread 0))\<rparr>"
    by (intro exI [of _ dumped] conjI)
  with h1 h2 h3 h4 h5 show ?thesis by (intro conjI)
qed

subsection \<open>The scan of the control stacks\<close>

lemma bindR_InrE:
  assumes "bindR m k fd = Inr y"
  obtains x fd' where "m fd = Inr (x, fd')" and "k x fd' = Inr y"
  using assms by (auto simp add: bindR_Inr_iff)

lemma load_tls_Inr:
  assumes "load_tls b pre t fd = Inr (t', rest)"
  shows "\<exists>m. t' = t\<lparr>tls := m\<rparr>"
  using assms unfolding load_tls_def Let_def
  by (elim bindR_InrE) (auto simp add: returnR_def)

lemma write_TLS_Some:
  assumes "write_TLS index v t = Some t'"
  shows "\<exists>m. t' = t\<lparr>tls := m\<rparr>"
  using assms by (auto simp add: write_TLS_def)

lemma in_bounds_Inr: "in_bounds m fd = Inr (x, rest) \<longleftrightarrow> m = Some x \<and> rest = fd"
  by (cases m) (auto simp add: in_bounds_def returnR_def loseR_def)

lemma stack_offset_fits:
  assumes "stack_offset t (control_stack_end t - n) + k \<le> length (control_stack t)"
  shows "unat n \<le> length (control_stack t)"
proof (rule ccontr)
  assume "\<not> unat n \<le> length (control_stack t)"
  then have "stack_offset t (control_stack_end t - n) = length (control_stack t) + 1"
    by (simp add: stack_offset_def Let_def)
  with assms show False by simp
qed

lemma read_thread_Inr:
  assumes "read_thread b p pre i fd = Inr ((t, tp), rest)"
  shows "unat (control_stack_nbytes tp) \<le> length (control_stack t)"
proof -
  define f where "f = alloc_thread_struct p i"
  from assms obtain cx m fd1 fd2 bs t3 fd3 where
    cs: "read_into (control_stack_nbytes tp) (control_stack f)
           (stack_offset f (control_stack_end f - control_stack_nbytes tp)) fd1 = Inr (m, fd2)"
    and tl: "load_tls b pre (f\<lparr>interrupt_context := cx, control_stack := m,
                                binding_stack := bs\<rparr>) fd3 = Inr (t3, rest)"
    and wt: "write_TLS (FREE_INTERRUPT_CONTEXT_INDEX b) (make_fixnum b 1) t3 = Some t"
    unfolding read_thread_def Let_def f_def [symmetric]
    by (elim bindR_InrE) (auto simp add: in_bounds_Inr returnR_def)
  from load_tls_Inr [OF tl] write_TLS_Some [OF wt]
  have ct: "control_stack t = m" and ce: "control_stack_end t = control_stack_end f"
    by auto
  from read_into_Inr [OF cs] obtain b' where
    fit: "stack_offset f (control_stack_end f - control_stack_nbytes tp) + length b'
            \<le> length (control_stack f)"
    and m: "m = take (stack_offset f (control_stack_end f - control_stack_nbytes tp))
                  (control_stack f) @ b' @
                drop (stack_offset f (control_stack_end f - control_stack_nbytes tp) + length b')
                  (control_stack f)"
    by auto
  from m fit have "length m = length (control_stack f)" by simp
  with stack_offset_fits [OF fit] ct show ?thesis by simp
qed

lemma nwords_le:
  "nat (sint (int_of_long (drop_bit WORD_SHIFT n))) * N_WORD_BYTES \<le> unat n"
proof -
  let ?m = "drop_bit WORD_SHIFT n"
  let ?w = "int_of_long ?m"
  have m: "unat ?m = unat n div 8"
    by (simp add: unat_drop_bit_eq drop_bit_eq_div WORD_SHIFT_def unat_div_distrib)
  have "unat ?w = unat ?m mod 2 ^ 32" by (simp add: int_of_long_def unsigned_ucast_eq take_bit_eq_mod)
  then have w: "unat ?w \<le> unat ?m" by simp
  have "nat (sint ?w) \<le> unat ?w"
  proof (cases "0 \<le> sint ?w")
    case True
    have "nat (sint ?w) = nat (int (unat ?w))"
      using sint_nonneg_unat [OF True] by (simp only:)
    also have "\<dots> = unat ?w" by (rule nat_int)
    finally show ?thesis by (rule eq_imp_le)
  next
    case False
    then show ?thesis by simp
  qed
  with w m have "nat (sint ?w) \<le> unat n div 8" by simp
  then have "nat (sint ?w) * 8 \<le> unat n div 8 * 8" by simp
  also have "\<dots> \<le> unat n" by simp
  finally show ?thesis by (simp add: N_WORD_BYTES_def)
qed

lemma could_be_pointer_classified:
  assumes "envelope_paged b rt"
  shows "could_be_pointer b rt w = Inr (classified b rt w)"
  using could_be_pointer_total [OF assms, of w] by (auto simp add: classified_def)

lemma scan_word_counts:
  assumes "envelope_paged b rt" and "stackptr + wordindex * N_WORD_BYTES + N_WORD_BYTES \<le> length stack"
  shows "scan_word b p rt stack (stackptr + wordindex * N_WORD_BYTES) (v, d) =
           Inr (v + valid_pointers b p rt [stack_word stack stackptr wordindex],
                d + dangling_pointers b p rt [stack_word stack stackptr wordindex])"
proof -
  let ?w = "stack_word stack stackptr wordindex"
  from assms(2) have pk: "peek stack (stackptr + wordindex * N_WORD_BYTES) N_WORD_BYTES =
      Some (take N_WORD_BYTES (drop (stackptr + wordindex * N_WORD_BYTES) stack))"
    by (simp add: peek_def)
  show ?thesis
    by (cases "search_dynamic_space p rt ?w")
       (simp_all add: scan_word_def pk stack_word_def [symmetric]
          could_be_pointer_classified [OF assms(1)] valid_pointers_def dangling_pointers_def)
qed

lemma pointers_append:
  "valid_pointers b p rt (xs @ ys) = valid_pointers b p rt xs + valid_pointers b p rt ys"
  "dangling_pointers b p rt (xs @ ys) = dangling_pointers b p rt xs + dangling_pointers b p rt ys"
  by (simp_all add: valid_pointers_def dangling_pointers_def)

lemma scan_stack_counts:
  assumes "envelope_paged b rt"
    and "stackptr + (wordindex + n) * N_WORD_BYTES \<le> length stack"
  shows "scan_stack b p rt stack stackptr n wordindex (v, d) =
           Inr (v + valid_pointers b p rt
                      (map (stack_word stack stackptr) [wordindex..<wordindex + n]),
                d + dangling_pointers b p rt
                      (map (stack_word stack stackptr) [wordindex..<wordindex + n]))"
  using assms(2)
proof (induction n arbitrary: wordindex v d)
  case 0
  show ?case by (simp add: valid_pointers_def dangling_pointers_def)
next
  case (Suc n)
  from Suc.prems have 1: "stackptr + wordindex * N_WORD_BYTES + N_WORD_BYTES \<le> length stack"
    by (simp add: algebra_simps)
  from Suc.prems have 2: "stackptr + (Suc wordindex + n) * N_WORD_BYTES \<le> length stack" by simp
  have "wordindex < wordindex + Suc n" by simp
  from upt_conv_Cons [OF this]
  have u: "[wordindex..<wordindex + Suc n] = wordindex # [Suc wordindex..<Suc wordindex + n]"
    by simp
  have c: "map (stack_word stack stackptr) [wordindex..<wordindex + Suc n] =
             [stack_word stack stackptr wordindex] @
             map (stack_word stack stackptr) [Suc wordindex..<Suc wordindex + n]"
    by (simp only: u) simp
  show ?case
    by (simp only: scan_stack.simps scan_word_counts [OF assms(1) 1] bindE_Inr
          Suc.IH [OF 2] c pointers_append add.assoc)
qed

lemma scan_thread_counts:
  assumes "envelope_paged b rt" and "unat (control_stack_nbytes tp) \<le> length (control_stack t)"
  shows "scan_thread b p rt t tp =
           Inr (valid_pointers b p rt (scanned_words t tp),
                dangling_pointers b p rt (scanned_words t tp))"
proof -
  let ?n = "control_stack_nbytes tp"
  let ?k = "nat (sint (int_of_long (drop_bit WORD_SHIFT ?n)))"
  have off: "stack_offset t (control_stack_end t - ?n) = length (control_stack t) - unat ?n"
    using assms(2) by (rule stack_offset_below)
  have "stack_offset t (control_stack_end t - ?n) + (0 + ?k) * N_WORD_BYTES
          \<le> length (control_stack t)"
    using nwords_le [of ?n] assms(2) by (simp add: off)
  from scan_stack_counts [OF assms(1) this, of p 0 0] show ?thesis
    by (simp add: scan_thread_def scanned_words_def Let_def)
qed

text \<open>
  C7.  Once a thread of the image has been read, the scan of its control stack returns,
  whatever the words of the stack are and whatever \<open>search_dynamic_space\<close> answers: its
  result is the number of scanned words that are classified as pointers and for which an
  object is found, and the number of those that are classified and for which none is
  found.  The scanned words are all the words of the dumped stack when that has less than
  2 GiB.  The round of the loop for this thread then ends normally with the thread that was
  read, unless the read of the name of the thread, which comes before the scan, faults.
  The page table is assumed to cover the envelope of the dynamic space.
\<close>

theorem scan_is_advisory:
  assumes "envelope_paged b rt" and "read_thread b p pre i fd = Inr ((t, tp), rest)"
  shows "scan_thread b p rt t tp =
           Inr (valid_pointers b p rt (scanned_words t tp),
                dangling_pointers b p rt (scanned_words t tp)) \<and>
         (unat (control_stack_nbytes tp) < 2 ^ 31 \<longrightarrow>
            length (scanned_words t tp) = unat (control_stack_nbytes tp) div N_WORD_BYTES) \<and>
         load_thread b p pre rt i fd =
           (case thread_name b p rt t of
              Inl e \<Rightarrow> Inl e
            | Inr u \<Rightarrow> Inr ((t, valid_pointers b p rt (scanned_words t tp),
                              dangling_pointers b p rt (scanned_words t tp)), rest))"
proof (intro conjI impI)
  from read_thread_Inr [OF assms(2)]
  have fit: "unat (control_stack_nbytes tp) \<le> length (control_stack t)" .
  from scan_thread_counts [OF assms(1) fit]
  show sc: "scan_thread b p rt t tp =
      Inr (valid_pointers b p rt (scanned_words t tp),
           dangling_pointers b p rt (scanned_words t tp))" .
  show "load_thread b p pre rt i fd =
           (case thread_name b p rt t of
              Inl e \<Rightarrow> Inl e
            | Inr u \<Rightarrow> Inr ((t, valid_pointers b p rt (scanned_words t tp),
                              dangling_pointers b p rt (scanned_words t tp)), rest))"
    by (cases "thread_name b p rt t")
       (simp_all add: load_thread_def bindR_def assms(2) sc liftR_def returnR_def loseR_def)
next
  assume "unat (control_stack_nbytes tp) < 2 ^ 31"
  from nwords_small [OF this]
  show "length (scanned_words t tp) = unat (control_stack_nbytes tp) div N_WORD_BYTES"
    by (simp add: scanned_words_def Let_def N_WORD_BYTES_def)
qed

subsection \<open>The scan of the small heap\<close>

lemma regions0:
  "DYNAMIC_SPACE_START (restored_regions build0 process0 heap0) = 0x2000"
  "dynamic_space_size (restored_regions build0 process0 heap0) = 16"
  "page_table_pages (restored_regions build0 process0 heap0) = 2"
  "page_table (restored_regions build0 process0 heap0) = [7, 0, 0, 0, 0, 0]"
  by (simp_all add: restored_regions_def restored_immobile_def restored_heap_def overlay_def
       chunk_def process0_def heap0_def build0_def replicate_numeral)

lemma could_be_pointer0:
  "could_be_pointer build0 (restored_regions build0 process0 heap0) 0x2001 = Inr True"
  "could_be_pointer build0 (restored_regions build0 process0 heap0) 0x2009 = Inr False"
  "could_be_pointer build0 (restored_regions build0 process0 heap0) 0x200F = Inr True"
  "could_be_pointer build0 (restored_regions build0 process0 heap0) 0x3003 = Inr False"
  by (simp_all only: could_be_pointer_def find_page_index_def page_table_entry_def regions0)
     (simp_all add: peek_def Let_def build0_def)

lemma preambles0:
  "thread_preamble_of (take 32 (thread_image build0 0x6000 0x4FF8 (save_preamble build0 heap0)
      thread0)) =
     \<lparr> address = 0x6000, has_context = 0, control_stack_nbytes = 8, binding_stack_nbytes = 0 \<rparr>"
  "thread_preamble_of (take 32 (thread_image build0 0x6000 0x4FF8 (save_preamble build0 heap0)
      thread1)) =
     \<lparr> address = 0x7000, has_context = 1, control_stack_nbytes = 8, binding_stack_nbytes = 8 \<rparr>"
  by (simp_all add: thread_image_def eval_defs Let_def)

lemma scanned_words0:
  "scanned_words
     (restored_thread build0 process0 0x6000 0x4FF8 (save_preamble build0 heap0) 0 thread0)
     \<lparr> address = 0x6000, has_context = 0, control_stack_nbytes = 8, binding_stack_nbytes = 0 \<rparr>
    = [0x2001]"
  "scanned_words
     (restored_thread build0 process0 0x6000 0x4FF8 (save_preamble build0 heap0) (Suc 0) thread1)
     \<lparr> address = 0x7000, has_context = 1, control_stack_nbytes = 8, binding_stack_nbytes = 8 \<rparr>
    = [0x200F]"
  by (simp_all only: restored_thread0 restored_thread1)
     (simp_all add: scanned_words_def stack_word_def stack_offset_def Let_def load64_def
        int_of_long_def WORD_SHIFT_def N_WORD_BYTES_def drop_bit_eq_div)

lemma counts0:
  "valid_pointers build0 process0 (restored_regions build0 process0 heap0) [0x2001] = 1"
  "dangling_pointers build0 process0 (restored_regions build0 process0 heap0) [0x2001] = 0"
  "valid_pointers build0 process0 (restored_regions build0 process0 heap0) [0x200F] = 0"
  "dangling_pointers build0 process0 (restored_regions build0 process0 heap0) [0x200F] = 1"
  by (simp_all only: valid_pointers_def dangling_pointers_def filter.simps classified_def
       could_be_pointer0)
     (simp_all add: process0_def)

lemma scans0:
  "scan_thread build0 process0 (restored_regions build0 process0 heap0)
     (restored_thread build0 process0 0x6000 0x4FF8 (save_preamble build0 heap0) 0 thread0)
     \<lparr> address = 0x6000, has_context = 0, control_stack_nbytes = 8, binding_stack_nbytes = 0 \<rparr>
    = Inr (1, 0)"
  "scan_thread build0 process0 (restored_regions build0 process0 heap0)
     (restored_thread build0 process0 0x6000 0x4FF8 (save_preamble build0 heap0) (Suc 0) thread1)
     \<lparr> address = 0x7000, has_context = 1, control_stack_nbytes = 8, binding_stack_nbytes = 8 \<rparr>
    = Inr (0, 1)"
proof -
  have l0: "unat (control_stack_nbytes \<lparr> address = 0x6000, has_context = 0,
              control_stack_nbytes = 8, binding_stack_nbytes = 0 \<rparr>) \<le> length (control_stack
     (restored_thread build0 process0 0x6000 0x4FF8 (save_preamble build0 heap0) 0 thread0))"
    by (simp only: restored_thread0) simp
  have l1: "unat (control_stack_nbytes \<lparr> address = 0x7000, has_context = 1,
              control_stack_nbytes = 8, binding_stack_nbytes = 8 \<rparr>) \<le> length (control_stack
     (restored_thread build0 process0 0x6000 0x4FF8 (save_preamble build0 heap0) (Suc 0) thread1))"
    by (simp only: restored_thread1) simp
  show "scan_thread build0 process0 (restored_regions build0 process0 heap0)
     (restored_thread build0 process0 0x6000 0x4FF8 (save_preamble build0 heap0) 0 thread0)
     \<lparr> address = 0x6000, has_context = 0, control_stack_nbytes = 8, binding_stack_nbytes = 0 \<rparr>
    = Inr (1, 0)"
    by (simp only: scan_thread_counts [OF envelope_paged0 l0] scanned_words0 counts0)
  show "scan_thread build0 process0 (restored_regions build0 process0 heap0)
     (restored_thread build0 process0 0x6000 0x4FF8 (save_preamble build0 heap0) (Suc 0) thread1)
     \<lparr> address = 0x7000, has_context = 1, control_stack_nbytes = 8, binding_stack_nbytes = 8 \<rparr>
    = Inr (0, 1)"
    by (simp only: scan_thread_counts [OF envelope_paged0 l1] scanned_words0 counts0)
qed

lemma reports0: "snd (restored build0 process0 heap0 0x6000 0x4FF8) = [(1, 0), (0, 1)]"
proof -
  have ts: "all_threads heap0 = [thread0, thread1]" by (simp add: heap0_def)
  show ?thesis
    by (simp add: restored_def Let_def ts preambles0 scans0 report_of_def)
qed

theorem scan_is_advisory_witness:
  "envelope_paged build0 (restored_regions build0 process0 heap0) \<and>
   read_thread build0 process0 (save_preamble build0 heap0) (Suc 0)
     (thread_image build0 0x6000 0x4FF8 (save_preamble build0 heap0) thread1 @ SB_Crash) =
     Inr ((restored_thread build0 process0 0x6000 0x4FF8 (save_preamble build0 heap0) (Suc 0) thread1,
           \<lparr> address = 0x7000, has_context = 1, control_stack_nbytes = 8,
             binding_stack_nbytes = 8 \<rparr>), SB_Crash) \<and>
   scanned_words
     (restored_thread build0 process0 0x6000 0x4FF8 (save_preamble build0 heap0) (Suc 0) thread1)
     \<lparr> address = 0x7000, has_context = 1, control_stack_nbytes = 8, binding_stack_nbytes = 8 \<rparr>
     = [0x200F] \<and>
   scan_thread build0 process0 (restored_regions build0 process0 heap0)
     (restored_thread build0 process0 0x6000 0x4FF8 (save_preamble build0 heap0) (Suc 0) thread1)
     \<lparr> address = 0x7000, has_context = 1, control_stack_nbytes = 8, binding_stack_nbytes = 8 \<rparr>
     = Inr (0, 1) \<and>
   load_thread build0 process0 (save_preamble build0 heap0)
     (restored_regions build0 process0 heap0) (Suc 0)
     (thread_image build0 0x6000 0x4FF8 (save_preamble build0 heap0) thread1 @ SB_Crash) =
     Inr ((restored_thread build0 process0 0x6000 0x4FF8 (save_preamble build0 heap0) (Suc 0) thread1,
           0, 1), SB_Crash)"
proof -
  let ?pre = "save_preamble build0 heap0"
  let ?R = "restored_regions build0 process0 heap0"
  let ?t = "restored_thread build0 process0 0x6000 0x4FF8 ?pre (Suc 0) thread1"
  let ?tp = "\<lparr> address = 0x7000, has_context = 1, control_stack_nbytes = 8,
               binding_stack_nbytes = 8 \<rparr>"
  have ok: "thread_ok build0 0x6000 0x4FF8 ?pre thread1"
    by (simp add: thread_ok_def eval_defs)
  have ici: "thread_ici build0 thread1 = Inr 1" by (simp add: eval_defs)
  have sp: "thread_sp build0 0x6000 0x4FF8 1 thread1 = Inr 0x7FF8" by (simp add: eval_defs)
  have tp: "save_thread_preamble 1 0x7FF8 thread1 = ?tp"
    by (simp add: eval_defs Let_def)
  from read_thread_image [OF ok thread_restorable1 ici sp, of SB_Crash]
  have h2: "read_thread build0 process0 ?pre (Suc 0)
      (thread_image build0 0x6000 0x4FF8 ?pre thread1 @ SB_Crash) = Inr ((?t, ?tp), SB_Crash)"
    by (simp only: tp)
  have nm: "thread_name build0 process0 ?R ?t = Inr ()"
    by (simp only: restored_thread1)
       (simp add: thread_name_def read_TLS_def peek_def load64_def process0_def build0_def
          N_WORD_BYTES_def)
  note t = scan_is_advisory [OF envelope_paged0 h2]
  from t [THEN conjunct1]
  have s: "scan_thread build0 process0 ?R ?t ?tp = Inr (0, 1)"
    by (simp only: scanned_words0 counts0)
  from t [THEN conjunct2, THEN conjunct2]
  have l: "load_thread build0 process0 ?pre ?R (Suc 0)
      (thread_image build0 0x6000 0x4FF8 ?pre thread1 @ SB_Crash) = Inr ((?t, 0, 1), SB_Crash)"
    by (simp only: scanned_words0 counts0 nm sum.case)
  from envelope_paged0 h2 scanned_words0(2) s l show ?thesis by (intro conjI)
qed

subsection \<open>The test on a word of the stack\<close>

text \<open>
  C6, as stated, fails.  The control stack of \<open>thread0\<close> holds the word \<open>0x2001\<close>, which
  lies in the dynamic space and whose low bits are not those of a pointer; page 0 is a code
  page, so the word is classified as a candidate, and the report for the thread counts it
  as a valid pointer.  (The word \<open>0x200F\<close> of \<open>thread1\<close> has the bits of a pointer and is
  counted as dangling.)
\<close>

theorem untagged_word_on_code_page_is_candidate:
  "load_gc_crashdump build0 process0 image0 = Inr (restored build0 process0 heap0 0x6000 0x4FF8) \<and>
   snd (restored build0 process0 heap0 0x6000 0x4FF8) = [(1, 0), (0, 1)] \<and>
   scanned_words
     (restored_thread build0 process0 0x6000 0x4FF8 (save_preamble build0 heap0) 0 thread0)
     \<lparr> address = 0x6000, has_context = 0, control_stack_nbytes = 8, binding_stack_nbytes = 0 \<rparr>
    = [0x2001] \<and>
   \<not> is_lisp_pointer build0 0x2001 \<and>
   could_be_pointer build0 (fst (restored build0 process0 heap0 0x6000 0x4FF8)) 0x2001 = Inr True"
proof -
  have "\<not> is_lisp_pointer build0 0x2001" by (simp add: build0_def)
  moreover have "could_be_pointer build0 (fst (restored build0 process0 heap0 0x6000 0x4FF8)) 0x2001
      = could_be_pointer build0 (restored_regions build0 process0 heap0) 0x2001"
    by (simp add: could_be_pointer_def find_page_index_def page_table_entry_def restored_def
          Let_def)
  ultimately show ?thesis
    using load_image0 reports0 scanned_words0(1) could_be_pointer0(1) by simp
qed

text \<open>
  C6, amended.  A word is classified as a candidate if and only if it lies in the
  envelope of the dynamic space and either its tag bits are those of a pointer or the
  page that holds it is a code page.  The page table is assumed to cover the envelope.
\<close>

theorem pointer_test:
  assumes "envelope_paged b rt"
  shows "could_be_pointer b rt w =
           Inr (DYNAMIC_SPACE_START rt \<le> w \<and>
                w < DYNAMIC_SPACE_START rt + dynamic_space_size rt \<and>
                (is_lisp_pointer b w \<or>
                 (\<exists>pte. page_table_entry b rt (find_page_index b rt w) = Some pte \<and>
                         is_code b pte)))"
proof (cases "DYNAMIC_SPACE_START rt \<le> w \<and> w < DYNAMIC_SPACE_START rt + dynamic_space_size rt")
  case False
  then show ?thesis by (auto simp add: could_be_pointer_def)
next
  case True
  then obtain pte where "page_table_entry b rt (find_page_index b rt w) = Some pte"
    using page_entry_exists [OF assms] by blast
  with True show ?thesis by (simp add: could_be_pointer_def)
qed

theorem pointer_test_witness:
  "envelope_paged build0 (restored_regions build0 process0 heap0) \<and>
   could_be_pointer build0 (restored_regions build0 process0 heap0) 0x2001 = Inr True \<and>
   could_be_pointer build0 (restored_regions build0 process0 heap0) 0x2009 = Inr False \<and>
   could_be_pointer build0 (restored_regions build0 process0 heap0) 0x200F = Inr True \<and>
   could_be_pointer build0 (restored_regions build0 process0 heap0) 0x3003 = Inr False \<and>
   \<not> is_lisp_pointer build0 0x2001 \<and> \<not> is_lisp_pointer build0 0x2009 \<and>
   is_lisp_pointer build0 0x200F \<and> is_lisp_pointer build0 0x3003 \<and>
   page_table_entry build0 (restored_regions build0 process0 heap0)
     (find_page_index build0 (restored_regions build0 process0 heap0) 0x2001) = Some [7, 0] \<and>
   page_table_entry build0 (restored_regions build0 process0 heap0)
     (find_page_index build0 (restored_regions build0 process0 heap0) 0x2009) = Some [0, 0] \<and>
   is_code build0 [7, 0] \<and> \<not> is_code build0 [0, 0]"
proof -
  note t = pointer_test [OF envelope_paged0]
  have e: "page_table_entry build0 (restored_regions build0 process0 heap0)
     (find_page_index build0 (restored_regions build0 process0 heap0) 0x2001) = Some [7, 0]"
     "page_table_entry build0 (restored_regions build0 process0 heap0)
     (find_page_index build0 (restored_regions build0 process0 heap0) 0x2009) = Some [0, 0]"
     "page_table_entry build0 (restored_regions build0 process0 heap0)
     (find_page_index build0 (restored_regions build0 process0 heap0) 0x200F) = Some [0, 0]"
    by (simp_all only: find_page_index_def page_table_entry_def regions0)
       (simp_all add: peek_def Let_def build0_def)
  have c: "is_code build0 [7, 0]" "\<not> is_code build0 [0, 0]"
    "\<not> is_lisp_pointer build0 0x2001" "\<not> is_lisp_pointer build0 0x2009"
    "is_lisp_pointer build0 0x200F" "is_lisp_pointer build0 0x3003"
    by (simp_all add: build0_def)
  have "could_be_pointer build0 (restored_regions build0 process0 heap0) 0x2001 = Inr True"
    by (simp only: t e) (simp add: regions0 c)
  moreover
  have "could_be_pointer build0 (restored_regions build0 process0 heap0) 0x2009 = Inr False"
    by (simp only: t e) (simp add: regions0 c)
  moreover
  have "could_be_pointer build0 (restored_regions build0 process0 heap0) 0x200F = Inr True"
    by (simp only: t e) (simp add: regions0 c)
  moreover
  have "could_be_pointer build0 (restored_regions build0 process0 heap0) 0x3003 = Inr False"
    by (simp only: t) (simp add: regions0 c)
  ultimately show ?thesis using envelope_paged0 e(1,2) c by (intro conjI)
qed

subsection \<open>The checks on the preamble\<close>

lemma read_preamble:
  assumes "120 \<le> length fd"
  shows "checked_read (of_nat sizeof_crash_preamble) fd = Inr (take 120 fd, drop 120 fd)"
proof -
  have "checked_read (of_nat sizeof_crash_preamble) (take 120 fd @ drop 120 fd)
          = Inr (take 120 fd, drop 120 fd)"
    using assms by (intro checked_read_append) (simp_all add: sizeof_crash_preamble_def)
  then show ?thesis by simp
qed

lemma read_preamble_short:
  assumes "length fd < 120"
  shows "checked_read (of_nat sizeof_crash_preamble) fd = Inl Read_failed"
  using assms by (intro checked_read_short) (simp_all add: sizeof_crash_preamble_def)

lemma load_heap_bad_header:
  assumes "120 \<le> length fd"
    and "signature (preamble_of (take 120 fd)) \<noteq> long_of_int CRASH_PREAMBLE_SIGNATURE"
  shows "load_heap b p fd = Inl Bad_header"
  using assms(2) by (simp add: load_heap_def bindR_def read_preamble [OF assms(1)] Let_def loseR_def)

lemma load_heap_parameters:
  assumes "120 \<le> length fd"
    and "signature (preamble_of (take 120 fd)) = long_of_int CRASH_PREAMBLE_SIGNATURE"
    and "card_size (preamble_of (take 120 fd)) \<noteq> of_nat (GENCGC_CARD_BYTES b)"
  shows "load_heap b p fd = Inl Memory_parameters_differ"
  using assms(2,3)
  by (simp add: load_heap_def bindR_def read_preamble [OF assms(1)] Let_def loseR_def)

lemma load_gc_crashdump_Inl:
  assumes "load_heap b p fd = Inl e"
  shows "load_gc_crashdump b p fd = Inl e"
  using assms by (simp add: load_gc_crashdump_def load_all_def load_body_def bindR_def)

lemma load_heap_Inr:
  assumes "load_heap b p fd = Inr ((pre, rt), rest)"
  shows "120 \<le> length fd \<and> pre = preamble_of (take 120 fd) \<and>
         signature pre = long_of_int CRASH_PREAMBLE_SIGNATURE \<and>
         card_size pre = of_nat (GENCGC_CARD_BYTES b) \<and>
         gc_card_table_nbits rt = card_table_nbits pre"
proof (cases "120 \<le> length fd")
  case False
  then have "load_heap b p fd = Inl Read_failed"
    by (simp add: load_heap_def bindR_def read_preamble_short)
  with assms show ?thesis by simp
next
  case True
  note r = read_preamble [OF True]
  let ?pre = "preamble_of (take 120 fd)"
  have s: "signature ?pre = long_of_int CRASH_PREAMBLE_SIGNATURE"
  proof (rule ccontr)
    assume "signature ?pre \<noteq> long_of_int CRASH_PREAMBLE_SIGNATURE"
    from load_heap_bad_header [OF True this, of b p] assms show False by simp
  qed
  have c: "card_size ?pre = of_nat (GENCGC_CARD_BYTES b)"
  proof (rule ccontr)
    assume "card_size ?pre \<noteq> of_nat (GENCGC_CARD_BYTES b)"
    from load_heap_parameters [OF True s this, of p] assms show False by simp
  qed
  from assms have "pre = ?pre \<and> gc_card_table_nbits rt = card_table_nbits ?pre"
    unfolding load_heap_def bindR_def [of "checked_read (of_nat sizeof_crash_preamble)"] r
    apply (simp add: Let_def s c)
    apply (elim bindR_InrE)
    apply (simp add: loseR_def Let_def split: if_splits)
    apply (elim bindR_InrE)
    apply (auto simp add: returnR_def gc_allocate_ptes_def)
    done
  with True s c show ?thesis by simp
qed

lemma load_immobile_Inr:
  assumes "load_immobile b p pre rt fd = Inr (rt', rest)"
  shows "gc_card_table_nbits rt' = gc_card_table_nbits rt"
  using assms unfolding load_immobile_def Let_def
  by (elim bindR_InrE) (auto simp add: returnR_def gc_init_immobile_def)

lemma load_body_Inr:
  assumes "load_body b p fd = Inr ((rt, reports), rest)"
  shows "120 \<le> length fd \<and>
         signature (preamble_of (take 120 fd)) = long_of_int CRASH_PREAMBLE_SIGNATURE \<and>
         card_size (preamble_of (take 120 fd)) = of_nat (GENCGC_CARD_BYTES b) \<and>
         gc_card_table_nbits rt = card_table_nbits (preamble_of (take 120 fd))"
proof -
  from assms obtain pre rt1 fd1 rt2 fd2 where
    h: "load_heap b p fd = Inr ((pre, rt1), fd1)"
    and i: "load_immobile b p pre rt1 fd1 = Inr (rt2, fd2)"
    and r: "gc_card_table_nbits rt = gc_card_table_nbits rt2"
    unfolding load_body_def
    by (elim bindR_InrE) (auto simp add: returnR_def)
  from load_heap_Inr [OF h] load_immobile_Inr [OF i] r show ?thesis by auto
qed

text \<open>
  C2, as stated, fails for the width of the card-table index.  The process that reads has
  been started with a width of 14; the image of the small heap declares a width of 1, and
  \<open>load_gc_crashdump\<close> accepts it: the width of the image is stored in
  \<open>gc_card_table_nbits\<close> (line 891) before the tables are allocated for it.
\<close>

theorem card_table_width_is_adopted:
  "gc_card_table_nbits (startup process0) = 14 \<and>
   card_table_nbits (preamble_of (take 120 image0)) = 1 \<and>
   load_gc_crashdump build0 process0 image0 = Inr (restored build0 process0 heap0 0x6000 0x4FF8) \<and>
   gc_card_table_nbits (fst (restored build0 process0 heap0 0x6000 0x4FF8)) = 1"
proof -
  have "take 120 image0 = preamble_bytes (save_preamble build0 heap0)"
    by (simp add: image0_def crash_image_def heap_image_def)
  then have "card_table_nbits (preamble_of (take 120 image0)) = 1"
    by (simp add: save_preamble_def heap0_def)
  moreover have "gc_card_table_nbits (startup process0) = 14" by (simp add: process0_def)
  moreover have "gc_card_table_nbits (fst (restored build0 process0 heap0 0x6000 0x4FF8)) = 1"
    by (simp add: restored_def Let_def restored_regions_def restored_immobile_def
          restored_heap_def heap0_def)
  ultimately show ?thesis using load_image0 by simp
qed

text \<open>
  C2, amended.  An image whose first 120 bytes do not carry the signature of the reader
  makes \<open>load_gc_crashdump\<close> lose with "bad header", and one with the signature and a
  card size that is not \<open>GENCGC_CARD_BYTES\<close> makes it lose with "memory parameters
  differ" (an image of less than 120 bytes makes the first \<open>checked_read\<close> fail).  The
  width of the card-table index is not compared: when the image is accepted, the width it
  declares is the one of the restored heap.
\<close>

theorem preamble_checks:
  "(signature (preamble_of (take 120 fd)) \<noteq> long_of_int CRASH_PREAMBLE_SIGNATURE \<longrightarrow>
      load_gc_crashdump b p fd = Inl (if length fd < 120 then Read_failed else Bad_header)) \<and>
   (signature (preamble_of (take 120 fd)) = long_of_int CRASH_PREAMBLE_SIGNATURE \<and>
    card_size (preamble_of (take 120 fd)) \<noteq> of_nat (GENCGC_CARD_BYTES b) \<longrightarrow>
      load_gc_crashdump b p fd =
        Inl (if length fd < 120 then Read_failed else Memory_parameters_differ)) \<and>
   (\<forall>rt reports. load_gc_crashdump b p fd = Inr (rt, reports) \<longrightarrow>
      signature (preamble_of (take 120 fd)) = long_of_int CRASH_PREAMBLE_SIGNATURE \<and>
      card_size (preamble_of (take 120 fd)) = of_nat (GENCGC_CARD_BYTES b) \<and>
      gc_card_table_nbits rt = card_table_nbits (preamble_of (take 120 fd)))"
proof -
  let ?pre = "preamble_of (take 120 fd)"
  have short: "load_gc_crashdump b p fd = Inl Read_failed" if "length fd < 120"
  proof -
    from that have "load_heap b p fd = Inl Read_failed"
      by (simp add: load_heap_def bindR_def read_preamble_short)
    then show ?thesis by (rule load_gc_crashdump_Inl)
  qed
  have 1: "load_gc_crashdump b p fd = Inl (if length fd < 120 then Read_failed else Bad_header)"
    if s: "signature ?pre \<noteq> long_of_int CRASH_PREAMBLE_SIGNATURE"
  proof (cases "length fd < 120")
    case True
    with short show ?thesis by simp
  next
    case False
    then have "120 \<le> length fd" by simp
    from load_gc_crashdump_Inl [OF load_heap_bad_header [OF this s]] False show ?thesis by simp
  qed
  have 2: "load_gc_crashdump b p fd =
      Inl (if length fd < 120 then Read_failed else Memory_parameters_differ)"
    if s: "signature ?pre = long_of_int CRASH_PREAMBLE_SIGNATURE"
      and c: "card_size ?pre \<noteq> of_nat (GENCGC_CARD_BYTES b)"
  proof (cases "length fd < 120")
    case True
    with short show ?thesis by simp
  next
    case False
    then have "120 \<le> length fd" by simp
    from load_gc_crashdump_Inl [OF load_heap_parameters [OF this s c]] False
    show ?thesis by simp
  qed
  have 3: "signature ?pre = long_of_int CRASH_PREAMBLE_SIGNATURE \<and>
      card_size ?pre = of_nat (GENCGC_CARD_BYTES b) \<and>
      gc_card_table_nbits rt = card_table_nbits ?pre"
    if "load_gc_crashdump b p fd = Inr (rt, reports)" for rt reports
  proof -
    from that have "load_all b p fd = Inr ((rt, reports), [])"
      by (simp only: load_gc_crashdump_Inr)
    then obtain fd1 where "load_body b p fd = Inr ((rt, reports), fd1)"
      by (auto simp add: load_all_Inr)
    from load_body_Inr [OF this] show ?thesis by simp
  qed
  show ?thesis
  proof (intro conjI impI allI)
    assume "signature ?pre \<noteq> long_of_int CRASH_PREAMBLE_SIGNATURE"
    then show "load_gc_crashdump b p fd =
        Inl (if length fd < 120 then Read_failed else Bad_header)" by (rule 1)
  next
    assume a: "signature ?pre = long_of_int CRASH_PREAMBLE_SIGNATURE \<and>
      card_size ?pre \<noteq> of_nat (GENCGC_CARD_BYTES b)"
    show "load_gc_crashdump b p fd =
        Inl (if length fd < 120 then Read_failed else Memory_parameters_differ)"
      by (rule 2 [OF a [THEN conjunct1] a [THEN conjunct2]])
  next
    fix rt reports
    assume l: "load_gc_crashdump b p fd = Inr (rt, reports)"
    from 3 [OF l] show "signature ?pre = long_of_int CRASH_PREAMBLE_SIGNATURE" by simp
    from 3 [OF l] show "card_size ?pre = of_nat (GENCGC_CARD_BYTES b)" by simp
    from 3 [OF l] show "gc_card_table_nbits rt = card_table_nbits ?pre" by simp
  qed
qed

lemma preamble0_bytes:
  "take 120 image0 =
     [0x20, 0, 0x78, 0, 0, 0, 0, 0, 0, 0x10, 0, 0, 0, 0, 0, 0, 4, 0, 0, 0, 0, 0, 0, 0,
      0, 0x20, 0, 0, 0, 0, 0, 0, 1, 0, 0, 0, 0, 0, 0, 0, 4, 0, 0, 0, 1, 0, 0, 0,
      0, 0x30, 0, 0, 0, 0, 0, 0, 8, 0, 0, 0, 0, 0, 0, 0, 4, 0x30, 0, 0, 0, 0, 0, 0,
      0, 0x38, 0, 0, 0, 0, 0, 0, 8, 0, 0, 0, 0, 0, 0, 0, 4, 0x38, 0, 0, 0, 0, 0, 0,
      2, 0, 0, 0, 0x20, 0, 0, 0, 3, 0x20, 0, 0, 0, 0, 0, 0, 0, 1, 0x5A, 0xA5,
      0x10, 0, 0, 0]"
proof -
  have "take 120 image0 = preamble_bytes (save_preamble build0 heap0)"
    by (simp add: image0_def crash_image_def heap_image_def)
  then show ?thesis
    by (simp only:) (simp add: preamble_bytes_def eval_defs le_bytes_numeral)
qed

theorem preamble_checks_witness:
  "long_of_int CRASH_PREAMBLE_SIGNATURE = 0x780020 \<and>
   signature (preamble_of (take 120 (0x21 # tl image0))) = 0x780021 \<and>
   load_gc_crashdump build0 process0 (0x21 # tl image0) = Inl Bad_header \<and>
   signature (preamble_of (take 120 image0)) = 0x780020 \<and>
   card_size (preamble_of (take 120 image0)) = 4 \<and>
   GENCGC_CARD_BYTES (build0\<lparr>GENCGC_CARD_BYTES := 8\<rparr>) = 8 \<and>
   load_gc_crashdump (build0\<lparr>GENCGC_CARD_BYTES := 8\<rparr>) process0 image0
     = Inl Memory_parameters_differ \<and>
   GENCGC_CARD_BYTES build0 = 4 \<and>
   load_gc_crashdump build0 process0 image0 = Inr (restored build0 process0 heap0 0x6000 0x4FF8) \<and>
   card_table_nbits (preamble_of (take 120 image0)) = 1 \<and>
   gc_card_table_nbits (fst (restored build0 process0 heap0 0x6000 0x4FF8)) = 1"
proof -
  have sig: "long_of_int CRASH_PREAMBLE_SIGNATURE = 0x780020"
    by (simp add: CRASH_PREAMBLE_SIGNATURE_def long_of_int_def sizeof_crash_preamble_def
          sizeof_crash_thread_preamble_def)
  have t: "take 120 (0x21 # tl image0) = 0x21 # tl (take 120 image0)"
    by (simp add: tl_take)
  have s1: "signature (preamble_of (take 120 (0x21 # tl image0))) = 0x780021"
    by (simp only: t preamble0_bytes) (simp add: preamble_of_def field_def load64_def)
  have s0: "signature (preamble_of (take 120 image0)) = 0x780020"
    and c0: "card_size (preamble_of (take 120 image0)) = 4"
    and n0: "card_table_nbits (preamble_of (take 120 image0)) = 1"
    by (simp_all only: preamble0_bytes)
       (simp_all add: preamble_of_def field_def load64_def load32_def)
  have l1: "\<not> length (0x21 # tl image0) < 120" and l0: "\<not> length image0 < 120"
    using length_image0 by simp_all
  have g8: "GENCGC_CARD_BYTES (build0\<lparr>GENCGC_CARD_BYTES := 8\<rparr>) = 8"
    and g4: "GENCGC_CARD_BYTES build0 = 4"
    by (simp_all add: build0_def)
  note a = preamble_checks [of "0x21 # tl image0" build0 process0, THEN conjunct1]
  have bad: "load_gc_crashdump build0 process0 (0x21 # tl image0) = Inl Bad_header"
    using a l1 by (simp only: s1 sig if_False) simp
  note b = preamble_checks [of image0 "build0\<lparr>GENCGC_CARD_BYTES := 8\<rparr>" process0,
      THEN conjunct2, THEN conjunct1]
  have par: "load_gc_crashdump (build0\<lparr>GENCGC_CARD_BYTES := 8\<rparr>) process0 image0
      = Inl Memory_parameters_differ"
    using b l0 by (simp only: s0 c0 sig g8 if_False) simp
  note c = preamble_checks [of image0 build0 process0, THEN conjunct2, THEN conjunct2,
      rule_format, of "fst (restored build0 process0 heap0 0x6000 0x4FF8)"
        "snd (restored build0 process0 heap0 0x6000 0x4FF8)"]
  have "load_gc_crashdump build0 process0 image0 =
      Inr (fst (restored build0 process0 heap0 0x6000 0x4FF8),
           snd (restored build0 process0 heap0 0x6000 0x4FF8))"
    using load_image0 by simp
  from c [OF this] have nb: "gc_card_table_nbits (fst (restored build0 process0 heap0 0x6000 0x4FF8))
      = 1"
    by (simp only: n0)
  from sig s1 bad s0 c0 g8 par g4 load_image0 n0 nb show ?thesis by (intro conjI)
qed

subsection \<open>Capture, then restore\<close>











end
